theory Spec2Isabelle
  imports Main
begin

section \<open>Python values used by parser.py and parser2.py\<close>

text \<open>
  Both programs read Stack Exchange dumps with \<^verbatim>\<open>xml.etree.ElementTree.iterparse\<close>,
  keep some of the \<^verbatim>\<open>row\<close> elements and write them out again. The embedding below
  follows the two source files function by function.

  Conventions of the embedding:
  \<^item> a Python \<^verbatim>\<open>str\<close> is a \<open>string\<close>; a \<open>char\<close> stands for the code point of the same
    number, so the model covers the strings whose code points are below 256 (the year
    extractor, for which the digits of other scripts matter, is embedded a second
    time over all code points);
  \<^item> a Python \<^verbatim>\<open>int\<close> is an \<open>int\<close>;
  \<^item> a function that can raise returns \<open>pyerr + 'a\<close>, with \<open>Inl\<close> the exception;
  \<^item> the attribute dictionary of an element is an association list in document order,
    read with \<open>map_of\<close> (an XML element never repeats an attribute name);
  \<^item> printing to stdout and stderr is left out: no function below depends on it.
\<close>

datatype pyerr =
    ValueError
  | AttributeError
  | StopIteration
  | ParseError
  | FileNotFoundError
  | OSError
  | SystemExit int

type_synonym attrs = "(string \<times> string) list"

definition attr_get :: "attrs \<Rightarrow> string \<Rightarrow> string \<Rightarrow> string" where
  \<comment> \<open>\<^verbatim>\<open>post_attrs.get(key, default)\<close>\<close>
  "attr_get post_attrs key dflt = (case map_of post_attrs key of None \<Rightarrow> dflt | Some v \<Rightarrow> v)"

definition attr_in :: "string \<Rightarrow> attrs \<Rightarrow> bool" where
  \<comment> \<open>\<^verbatim>\<open>key in post_attrs\<close>\<close>
  "attr_in key post_attrs = (map_of post_attrs key \<noteq> None)"

subsection \<open>Character classes\<close>

definition py_isspace :: "char \<Rightarrow> bool" where
  \<comment> \<open>\<^verbatim>\<open>str.isspace\<close>, which is also \<^verbatim>\<open>\s\<close> of a str pattern and what \<^verbatim>\<open>str.strip()\<close>
      removes: tab to carriage return, the four separators 28 to 31, space, NEL (133)
      and the no-break space (160).\<close>
  "py_isspace c = (let n = (of_char c :: nat) in
     (9 \<le> n \<and> n \<le> 13) \<or> (28 \<le> n \<and> n \<le> 32) \<or> n = 133 \<or> n = 160)"

definition int_isspace :: "char \<Rightarrow> bool" where
  \<comment> \<open>the whitespace that \<^verbatim>\<open>int()\<close> skips around a literal: that of \<^verbatim>\<open>str.isspace\<close> but for
      the four separators 28 to 31, on which \<^verbatim>\<open>int()\<close> raises.\<close>
  "int_isspace c = (let n = (of_char c :: nat) in
     (9 \<le> n \<and> n \<le> 13) \<or> n = 32 \<or> n = 133 \<or> n = 160)"

definition py_isdecimal :: "char \<Rightarrow> bool" where
  \<comment> \<open>\<^verbatim>\<open>\d\<close> of a str pattern and the digits \<^verbatim>\<open>int()\<close> reads; below 256 these are 0 to 9.\<close>
  "py_isdecimal c = (let n = (of_char c :: nat) in 48 \<le> n \<and> n \<le> 57)"

definition digit_val :: "char \<Rightarrow> int" where
  "digit_val c = int (of_char c) - 48"

definition py_strip :: "string \<Rightarrow> string" where
  \<comment> \<open>\<^verbatim>\<open>s.strip()\<close>\<close>
  "py_strip s = rev (dropWhile py_isspace (rev (dropWhile py_isspace s)))"

subsection \<open>\<^verbatim>\<open>int(s)\<close> and \<^verbatim>\<open>str(n)\<close>\<close>

text \<open>
  \<^verbatim>\<open>int(s)\<close> in base 10: surrounding whitespace is skipped, one sign is allowed, then come
  decimal digits, where a single underscore may stand between two digits. Anything else
  raises \<^verbatim>\<open>ValueError\<close>, as does a literal of more than
  \<^verbatim>\<open>sys.int_info.default_max_str_digits\<close> digits.
\<close>

definition max_str_digits :: nat where
  "max_str_digits = 4300"

fun no_double_underscore :: "string \<Rightarrow> bool" where
  "no_double_underscore (a # b # cs) =
     (if a = CHR ''_'' \<and> b = CHR ''_'' then False else no_double_underscore (b # cs))"
| "no_double_underscore [a] = True"
| "no_double_underscore [] = True"

definition py_int_digits :: "string \<Rightarrow> pyerr + int" where
  "py_int_digits body =
     (if body = [] then Inl ValueError
      else if hd body = CHR ''_'' then Inl ValueError
      else if last body = CHR ''_'' then Inl ValueError
      else if \<not> no_double_underscore body then Inl ValueError
      else if \<not> list_all (\<lambda>c. py_isdecimal c \<or> c = CHR ''_'') body then Inl ValueError
      else let ds = filter py_isdecimal body in
        if max_str_digits < length ds then Inl ValueError
        else Inr (foldl (\<lambda>acc c. 10 * acc + digit_val c) 0 ds))"

definition py_int :: "string \<Rightarrow> pyerr + int" where
  "py_int s =
     (case rev (dropWhile int_isspace (rev (dropWhile int_isspace s))) of
        [] \<Rightarrow> Inl ValueError
      | c # cs \<Rightarrow>
          if c = CHR ''-'' then
            (case py_int_digits cs of Inl e \<Rightarrow> Inl e | Inr n \<Rightarrow> Inr (- n))
          else if c = CHR ''+'' then py_int_digits cs
          else py_int_digits (c # cs))"

text \<open>\<^verbatim>\<open>str(n)\<close>, as the f-string \<^verbatim>\<open>f"A.{n}"\<close> formats the topic counter.\<close>

definition digit_char :: "nat \<Rightarrow> char" where
  "digit_char d = char_of (48 + d)"

fun str_nat :: "nat \<Rightarrow> string" where
  "str_nat n = (if n < 10 then [digit_char n] else str_nat (n div 10) @ [digit_char (n mod 10)])"

declare str_nat.simps [simp del]

definition py_str :: "int \<Rightarrow> string" where
  "py_str n = (if n < 0 then CHR ''-'' # str_nat (nat (- n)) else str_nat (nat n))"

subsection \<open>The two regular expressions\<close>

definition match_year :: "string \<Rightarrow> string option" where
  \<comment> \<open>\<^verbatim>\<open>re.match(r'^(\d{4})', s)\<close>: group 1 of the match, \<open>None\<close> when there is none.\<close>
  "match_year s =
     (if 4 \<le> length s \<and> list_all py_isdecimal (take 4 s) then Some (take 4 s) else None)"

text \<open>
  \<^verbatim>\<open>re.findall(r'<([^>]+)>', s)\<close>. At a \<^verbatim>\<open><\<close> the class \<^verbatim>\<open>[^>]+\<close> takes every character up
  to the next \<^verbatim>\<open>>\<close>; the match succeeds when that run is not empty and a \<^verbatim>\<open>>\<close> follows it,
  and the search goes on behind that \<^verbatim>\<open>>\<close>. Otherwise no shorter run can be followed by
  \<^verbatim>\<open>>\<close> either, and the search goes on one character further.
\<close>

function findall_tags :: "string \<Rightarrow> string list" where
  "findall_tags [] = []"
| "findall_tags (c # cs) =
     (if c = CHR ''<'' then
        (if takeWhile (\<lambda>x. x \<noteq> CHR ''>'') cs \<noteq> [] \<and> dropWhile (\<lambda>x. x \<noteq> CHR ''>'') cs \<noteq> []
         then takeWhile (\<lambda>x. x \<noteq> CHR ''>'') cs
                # findall_tags (tl (dropWhile (\<lambda>x. x \<noteq> CHR ''>'') cs))
         else findall_tags cs)
      else findall_tags cs)"
  by pat_completeness auto
termination
proof (relation "measure length")
  show "wf (measure (length :: string \<Rightarrow> nat))" by simp
next
  fix c :: char and cs :: string
  have "length (tl (dropWhile (\<lambda>x. x \<noteq> CHR ''>'') cs)) \<le> length cs"
    using length_dropWhile_le [of "\<lambda>x. x \<noteq> CHR ''>''" cs] by simp
  then show "(tl (dropWhile (\<lambda>x. x \<noteq> CHR ''>'') cs), c # cs) \<in> measure length"
    by simp
next
  fix c :: char and cs :: string
  show "(cs, c # cs) \<in> measure length" by simp
next
  fix c :: char and cs :: string
  show "(cs, c # cs) \<in> measure length" by simp
qed

declare findall_tags.simps(2) [simp del]

section \<open>parser2.py: PostFilter\<close>

record PostFilter =
  min_score :: "int option"
  max_score :: "int option"
  post_types :: "string list"
  tags_include :: "string set"
  tags_exclude :: "string set"
  min_answers :: "int option"
  has_accepted_answer :: "bool option"
  min_views :: "int option"
  min_year :: "int option"
  max_year :: "int option"
  specific_years :: "int set"

definition PostFilter_init ::
  "int option \<Rightarrow> int option \<Rightarrow> string list option \<Rightarrow> string list option \<Rightarrow>
   string list option \<Rightarrow> int option \<Rightarrow> bool option \<Rightarrow> int option \<Rightarrow> int option \<Rightarrow>
   int option \<Rightarrow> int list option \<Rightarrow> PostFilter" where
  \<comment> \<open>\<^verbatim>\<open>PostFilter.__init__\<close>, the keyword arguments in the order of the signature.
      \<^verbatim>\<open>x or d\<close> and \<^verbatim>\<open>set(x) if x else set()\<close> take the default for \<^verbatim>\<open>None\<close> and for
      an empty list alike.\<close>
  "PostFilter_init a_min_score a_max_score a_post_types a_tags_include a_tags_exclude
       a_min_answers a_has_accepted_answer a_min_views a_min_year a_max_year a_specific_years =
     \<lparr> min_score = a_min_score,
       max_score = a_max_score,
       post_types = (case a_post_types of
                       None \<Rightarrow> [''1'', ''2'']
                     | Some ts \<Rightarrow> if ts = [] then [''1'', ''2''] else ts),
       tags_include = (case a_tags_include of None \<Rightarrow> {} | Some ts \<Rightarrow> set ts),
       tags_exclude = (case a_tags_exclude of None \<Rightarrow> {} | Some ts \<Rightarrow> set ts),
       min_answers = a_min_answers,
       has_accepted_answer = a_has_accepted_answer,
       min_views = a_min_views,
       min_year = a_min_year,
       max_year = a_max_year,
       specific_years = (case a_specific_years of None \<Rightarrow> {} | Some ys \<Rightarrow> set ys) \<rparr>"

definition PostFilter_extract_tags :: "string \<Rightarrow> string set" where
  \<comment> \<open>\<^verbatim>\<open>PostFilter._extract_tags\<close>\<close>
  "PostFilter_extract_tags tags_text =
     (if tags_text = [] then {} else set (findall_tags tags_text))"

definition PostFilter_extract_year_from_date :: "string \<Rightarrow> pyerr + int" where
  \<comment> \<open>\<^verbatim>\<open>PostFilter._extract_year_from_date\<close>: the \<^verbatim>\<open>except\<close> clause catches
      \<^verbatim>\<open>ValueError\<close> and \<^verbatim>\<open>AttributeError\<close> and falls through to \<^verbatim>\<open>return 0\<close>.\<close>
  "PostFilter_extract_year_from_date date_string =
     (case match_year date_string of
        Some g \<Rightarrow>
          (case py_int g of
             Inr n \<Rightarrow> Inr n
           | Inl e \<Rightarrow> if e = ValueError \<or> e = AttributeError then Inr 0 else Inl e)
      | None \<Rightarrow> Inr 0)"

text \<open>
  \<^verbatim>\<open>should_include_post\<close> is a sequence of blocks, each of which either executes
  \<^verbatim>\<open>return False\<close> or falls through to the next. A block is modelled by a function whose
  value \<open>Inr False\<close> is the \<^verbatim>\<open>return False\<close>, \<open>Inr True\<close> the fall through, and \<open>Inl e\<close> an
  exception raised inside the block; \<open>and_then\<close> runs the next block only after a fall
  through.
\<close>

definition and_then :: "pyerr + bool \<Rightarrow> pyerr + bool \<Rightarrow> pyerr + bool" where
  "and_then r k = (case r of Inl e \<Rightarrow> Inl e | Inr b \<Rightarrow> if b then k else Inr False)"

definition score_block :: "PostFilter \<Rightarrow> attrs \<Rightarrow> pyerr + bool" where
  \<comment> \<open>parser2.py lines 44 to 49\<close>
  "score_block self post_attrs =
     (case py_int (attr_get post_attrs ''Score'' ''0'') of
        Inl e \<Rightarrow> Inl e
      | Inr score \<Rightarrow>
          if (case min_score self of None \<Rightarrow> False | Some m \<Rightarrow> score < m) then Inr False
          else if (case max_score self of None \<Rightarrow> False | Some m \<Rightarrow> score > m) then Inr False
          else Inr True)"

definition views_block :: "PostFilter \<Rightarrow> string \<Rightarrow> attrs \<Rightarrow> pyerr + bool" where
  \<comment> \<open>parser2.py lines 51 to 55\<close>
  "views_block self post_type post_attrs =
     (case min_views self of
        None \<Rightarrow> Inr True
      | Some m \<Rightarrow>
          if post_type = ''1'' then
            (case py_int (attr_get post_attrs ''ViewCount'' ''0'') of
               Inl e \<Rightarrow> Inl e
             | Inr views \<Rightarrow> if views < m then Inr False else Inr True)
          else Inr True)"

definition answers_block :: "PostFilter \<Rightarrow> string \<Rightarrow> attrs \<Rightarrow> pyerr + bool" where
  \<comment> \<open>parser2.py lines 57 to 61\<close>
  "answers_block self post_type post_attrs =
     (case min_answers self of
        None \<Rightarrow> Inr True
      | Some m \<Rightarrow>
          if post_type = ''1'' then
            (case py_int (attr_get post_attrs ''AnswerCount'' ''0'') of
               Inl e \<Rightarrow> Inl e
             | Inr answer_count \<Rightarrow> if answer_count < m then Inr False else Inr True)
          else Inr True)"

definition accepted_block :: "PostFilter \<Rightarrow> string \<Rightarrow> attrs \<Rightarrow> pyerr + bool" where
  \<comment> \<open>parser2.py lines 63 to 69\<close>
  "accepted_block self post_type post_attrs =
     (case has_accepted_answer self of
        None \<Rightarrow> Inr True
      | Some want \<Rightarrow>
          if post_type = ''1'' then
            (let has_accepted = attr_in ''AcceptedAnswerId'' post_attrs in
             if want \<and> \<not> has_accepted then Inr False
             else if \<not> want \<and> has_accepted then Inr False
             else Inr True)
          else Inr True)"

definition tags_block :: "PostFilter \<Rightarrow> string \<Rightarrow> attrs \<Rightarrow> pyerr + bool" where
  \<comment> \<open>parser2.py lines 71 to 82\<close>
  "tags_block self post_type post_attrs =
     (if post_type = ''1'' \<and> (tags_include self \<noteq> {} \<or> tags_exclude self \<noteq> {}) then
        (let tags_text = attr_get post_attrs ''Tags'' '''';
             post_tags = PostFilter_extract_tags tags_text in
         if tags_include self \<noteq> {} \<and> tags_include self \<inter> post_tags = {} then Inr False
         else if tags_exclude self \<noteq> {} \<and> tags_exclude self \<inter> post_tags \<noteq> {} then Inr False
         else Inr True)
      else Inr True)"

definition year_block :: "PostFilter \<Rightarrow> attrs \<Rightarrow> pyerr + bool" where
  \<comment> \<open>parser2.py lines 84 to 98\<close>
  "year_block self post_attrs =
     (if min_year self \<noteq> None \<or> max_year self \<noteq> None \<or> specific_years self \<noteq> {} then
        (let creation_date = attr_get post_attrs ''CreationDate'' '''' in
         if creation_date \<noteq> [] then
           (case PostFilter_extract_year_from_date creation_date of
              Inl e \<Rightarrow> Inl e
            | Inr post_year \<Rightarrow>
                if specific_years self \<noteq> {} \<and> post_year \<notin> specific_years self then Inr False
                else if (case min_year self of None \<Rightarrow> False | Some m \<Rightarrow> post_year < m)
                  then Inr False
                else if (case max_year self of None \<Rightarrow> False | Some m \<Rightarrow> post_year > m)
                  then Inr False
                else Inr True)
         else Inr True)
      else Inr True)"

definition should_include_post :: "PostFilter \<Rightarrow> attrs \<Rightarrow> pyerr + bool" where
  \<comment> \<open>\<^verbatim>\<open>PostFilter.should_include_post\<close>\<close>
  "should_include_post self post_attrs =
     (let post_type = attr_get post_attrs ''PostTypeId'' ''1'' in
      if post_type \<notin> set (post_types self) then Inr False
      else
        and_then (score_block self post_attrs)
       (and_then (views_block self post_type post_attrs)
       (and_then (answers_block self post_type post_attrs)
       (and_then (accepted_block self post_type post_attrs)
       (and_then (tags_block self post_type post_attrs)
                 (year_block self post_attrs))))))"

section \<open>parser2.py: StreamingPostExtractor\<close>

text \<open>
  \<^verbatim>\<open>ET.iterparse(input_file, events=('start', 'end'))\<close> is an iterator of pairs
  \<^verbatim>\<open>(event, elem)\<close> that can raise \<^verbatim>\<open>ParseError\<close> at any \<^verbatim>\<open>next\<close>. It is modelled by the
  list of what the successive calls of \<^verbatim>\<open>next\<close> give: \<open>Inr\<close> an event with the tag and
  the attributes of its element, \<open>Inl\<close> an exception. A path that does not exist has no
  such list (\<open>None\<close>), and opening it raises \<^verbatim>\<open>FileNotFoundError\<close>.

  The attributes of an event are \<^verbatim>\<open>elem.attrib\<close> as the loop finds it. These are the
  attributes written in the file, with one exception: both loops call \<^verbatim>\<open>root.clear()\<close>
  after every record, so the end event of the root element finds its attributes empty
  once a record has been processed. This shows only in a file whose root element is
  itself called \<^verbatim>\<open>row\<close>.

  The loop functions return, beside the state of the program, the part of the iterator
  that was never asked for: the records the scan did not read.
\<close>

datatype event_kind = Start | End

datatype event = Event (kind: event_kind) (tag: string) (attrib: attrs)

type_synonym item = "pyerr + event"

record StreamingPostExtractor =
  target_count :: int
  post_filter :: PostFilter
  extracted_count :: int
  total_processed :: int
  posts :: "attrs list"

definition StreamingPostExtractor_init :: "int \<Rightarrow> PostFilter \<Rightarrow> StreamingPostExtractor" where
  "StreamingPostExtractor_init a_target_count a_post_filter =
     \<lparr> target_count = a_target_count,
       post_filter = a_post_filter,
       extracted_count = 0,
       total_processed = 0,
       posts = [] \<rparr>"

definition count_row :: "StreamingPostExtractor \<Rightarrow> StreamingPostExtractor" where
  \<comment> \<open>\<^verbatim>\<open>self.total_processed += 1\<close>\<close>
  "count_row self = self\<lparr> total_processed := total_processed self + 1 \<rparr>"

definition keep_row :: "StreamingPostExtractor \<Rightarrow> attrs \<Rightarrow> StreamingPostExtractor" where
  \<comment> \<open>\<^verbatim>\<open>self.posts.append(post_data); self.extracted_count += 1\<close>\<close>
  "keep_row self post_data =
     self\<lparr> posts := posts self @ [post_data], extracted_count := extracted_count self + 1 \<rparr>"

fun extract_loop ::
  "StreamingPostExtractor \<Rightarrow> item list \<Rightarrow> pyerr + (StreamingPostExtractor \<times> item list)" where
  \<comment> \<open>the \<^verbatim>\<open>for event, elem in context\<close> loop of \<^verbatim>\<open>extract_from_file\<close>; \<^verbatim>\<open>dict(elem.attrib)\<close>
      is a copy, so the later \<^verbatim>\<open>elem.clear()\<close> does not reach into \<^verbatim>\<open>self.posts\<close>.\<close>
  "extract_loop self [] = Inr (self, [])"
| "extract_loop self (Inl e # context) = Inl e"
| "extract_loop self (Inr ev # context) =
     (if kind ev = End \<and> tag ev = ''row'' then
        (case should_include_post (post_filter (count_row self)) (attrib ev) of
           Inl e \<Rightarrow> Inl e
         | Inr b \<Rightarrow>
             if b then
               (if extracted_count (keep_row (count_row self) (attrib ev))
                     \<ge> target_count (keep_row (count_row self) (attrib ev))
                then Inr (keep_row (count_row self) (attrib ev), context)
                else extract_loop (keep_row (count_row self) (attrib ev)) context)
             else extract_loop (count_row self) context)
      else extract_loop self context)"

definition extract_from_file ::
  "StreamingPostExtractor \<Rightarrow> item list option \<Rightarrow>
   pyerr + (StreamingPostExtractor \<times> item list)" where
  \<comment> \<open>\<^verbatim>\<open>StreamingPostExtractor.extract_from_file\<close>: every \<^verbatim>\<open>except\<close> clause prints and raises
      again. The list returned in Python is \<open>posts\<close> of the extractor returned here.\<close>
  "extract_from_file self input_file =
     (case input_file of
        None \<Rightarrow> Inl FileNotFoundError
      | Some context \<Rightarrow>
          (case context of
             [] \<Rightarrow> Inl StopIteration
           | Inl e # rest \<Rightarrow> Inl e
           | Inr root # rest \<Rightarrow> extract_loop self rest))"

section \<open>parser2.py: TopicsFormatter\<close>

record TopicsFormatter =
  topic_counter :: int

definition TopicsFormatter_init :: TopicsFormatter where
  "TopicsFormatter_init = \<lparr> topic_counter = 1 \<rparr>"

text \<open>
  A \<^verbatim>\<open>Topic\<close> element: its \<^verbatim>\<open>number\<close> attribute and the texts of its children \<^verbatim>\<open>Title\<close>,
  \<^verbatim>\<open>Question\<close> and \<^verbatim>\<open>Tags\<close>. The file written is modelled by the list of the \<^verbatim>\<open>Topic\<close>
  children of the root in order; indentation and the XML declaration are left out.
\<close>

record Topic =
  topic_number :: string
  topic_title :: string
  topic_question :: string
  topic_tags :: string

function sub_whitespace :: "string \<Rightarrow> string" where
  "sub_whitespace [] = []"
| "sub_whitespace (c # cs) =
     (if py_isspace c then CHR '' '' # sub_whitespace (dropWhile py_isspace cs)
      else c # sub_whitespace cs)"
  by pat_completeness auto
termination
proof (relation "measure length")
  show "wf (measure (length :: string \<Rightarrow> nat))" by simp
next
  fix c :: char and cs :: string
  have "length (dropWhile py_isspace cs) \<le> length cs"
    by (rule length_dropWhile_le)
  then show "(dropWhile py_isspace cs, c # cs) \<in> measure length" by simp
next
  fix c :: char and cs :: string
  show "(cs, c # cs) \<in> measure length" by simp
qed

text \<open>\<open>sub_whitespace\<close> is \<^verbatim>\<open>re.sub(r'\s+', ' ', content)\<close>.\<close>

definition process_html_content :: "string \<Rightarrow> string" where
  \<comment> \<open>\<^verbatim>\<open>TopicsFormatter._process_html_content\<close>\<close>
  "process_html_content content =
     (if content = [] then [] else py_strip (sub_whitespace content))"

fun py_join :: "string \<Rightarrow> string list \<Rightarrow> string" where
  "py_join sep [] = []"
| "py_join sep [x] = x"
| "py_join sep (x # y # ys) = x @ sep @ py_join sep (y # ys)"

definition extract_clean_tags :: "string \<Rightarrow> string" where
  \<comment> \<open>\<^verbatim>\<open>TopicsFormatter._extract_clean_tags\<close>\<close>
  "extract_clean_tags tags_text =
     (if tags_text = [] then [] else py_join '','' (findall_tags tags_text))"

definition create_topic_element :: "TopicsFormatter \<Rightarrow> attrs \<Rightarrow> Topic \<times> TopicsFormatter" where
  \<comment> \<open>\<^verbatim>\<open>TopicsFormatter._create_topic_element\<close>\<close>
  "create_topic_element self post =
     (\<lparr> topic_number = ''A.'' @ py_str (topic_counter self),
        topic_title = process_html_content (attr_get post ''Title'' ''Untitled Question''),
        topic_question = process_html_content (attr_get post ''Body'' ''''),
        topic_tags = extract_clean_tags (attr_get post ''Tags'' '''') \<rparr>,
      self\<lparr> topic_counter := topic_counter self + 1 \<rparr>)"

fun create_topics :: "TopicsFormatter \<Rightarrow> attrs list \<Rightarrow> Topic list \<times> TopicsFormatter" where
  \<comment> \<open>the \<^verbatim>\<open>for post in questions\<close> loop of \<^verbatim>\<open>format_posts_to_topics_xml\<close>\<close>
  "create_topics self [] = ([], self)"
| "create_topics self (post # questions) =
     (case create_topic_element self post of
        (topic, self1) \<Rightarrow>
          (case create_topics self1 questions of
             (topics, self2) \<Rightarrow> (topic # topics, self2)))"

definition is_question :: "attrs \<Rightarrow> bool" where
  \<comment> \<open>the condition of the list comprehension: \<^verbatim>\<open>p.get('PostTypeId', '1') == '1'\<close>\<close>
  "is_question p = (attr_get p ''PostTypeId'' ''1'' = ''1'')"

definition format_posts_to_topics_xml ::
  "TopicsFormatter \<Rightarrow> attrs list \<Rightarrow> bool \<Rightarrow> pyerr + (Topic list \<times> TopicsFormatter)" where
  \<comment> \<open>\<^verbatim>\<open>TopicsFormatter.format_posts_to_topics_xml\<close>; the third argument says whether
      \<^verbatim>\<open>open(output_file, 'w')\<close> succeeds. The first component of the result is the file.\<close>
  "format_posts_to_topics_xml self a_posts writable =
     (let questions = filter is_question a_posts in
      case create_topics self questions of
        (topics, self1) \<Rightarrow> if writable then Inr (topics, self1) else Inl OSError)"

section \<open>parser2.py: the command line\<close>

text \<open>
  The namespace that \<^verbatim>\<open>argparse\<close> returns: \<open>arg_x\<close> is \<^verbatim>\<open>args.x\<close>. The fields of parser.py
  come first, parser2.py adds its own. An option that was not given is \<open>None\<close>, a flag that
  was not given is \<open>False\<close>.
\<close>

record args =
  arg_input_file :: string
  arg_num_posts :: int
  arg_output :: string
  arg_verbose :: bool
  arg_min_year :: "int option"
  arg_max_year :: "int option"
  arg_years :: "string option"

record args2 = args +
  arg_questions_only :: bool
  arg_answers_only :: bool
  arg_min_score :: "int option"
  arg_max_score :: "int option"
  arg_min_answers :: "int option"
  arg_min_views :: "int option"
  arg_has_accepted :: bool
  arg_no_accepted :: bool
  arg_include_tags :: "string option"
  arg_exclude_tags :: "string option"

text \<open>
  What a run sees of the file system: the events of the XML file at a path (\<open>None\<close> when
  the path does not exist), and whether a path can be opened for writing. A run ends
  with an exit status and with the output file it wrote, if it wrote one.
\<close>

record world =
  files :: "string \<Rightarrow> item list option"
  writable :: "string \<Rightarrow> bool"

datatype 'f run = Run (exit_status: int) (output_file: "'f option")

definition int_truthy :: "int option \<Rightarrow> bool" where
  \<comment> \<open>the truth value of an optional integer: neither \<^verbatim>\<open>None\<close> nor 0\<close>
  "int_truthy x = (case x of None \<Rightarrow> False | Some n \<Rightarrow> n \<noteq> 0)"

definition str_truthy :: "string option \<Rightarrow> bool" where
  \<comment> \<open>the truth value of an optional string: neither \<^verbatim>\<open>None\<close> nor empty\<close>
  "str_truthy x = (case x of None \<Rightarrow> False | Some s \<Rightarrow> s \<noteq> [])"

definition current_year :: int where
  "current_year = 2025"

definition year_out_of_range :: "int option \<Rightarrow> bool" where
  \<comment> \<open>\<^verbatim>\<open>y and (y < 2008 or y > current_year)\<close>\<close>
  "year_out_of_range x =
     (case x of None \<Rightarrow> False | Some y \<Rightarrow> y \<noteq> 0 \<and> (y < 2008 \<or> y > current_year))"

definition years_inverted :: "int option \<Rightarrow> int option \<Rightarrow> bool" where
  \<comment> \<open>\<^verbatim>\<open>a and b and a > b\<close>\<close>
  "years_inverted x y =
     (case x of None \<Rightarrow> False
      | Some a \<Rightarrow> (case y of None \<Rightarrow> False | Some b \<Rightarrow> a \<noteq> 0 \<and> b \<noteq> 0 \<and> a > b))"

fun py_split :: "char \<Rightarrow> string \<Rightarrow> string list" where
  "py_split sep [] = [[]]"
| "py_split sep (c # cs) =
     (if c = sep then [] # py_split sep cs
      else (case py_split sep cs of [] \<Rightarrow> [[c]] | x # xs \<Rightarrow> (c # x) # xs))"

text \<open>\<open>py_split sep s\<close> is \<^verbatim>\<open>s.split(sep)\<close> for a separator of one character.\<close>

fun int_each :: "string list \<Rightarrow> pyerr + int list" where
  "int_each [] = Inr []"
| "int_each (y # ys) =
     (case py_int (py_strip y) of
        Inl e \<Rightarrow> Inl e
      | Inr n \<Rightarrow> (case int_each ys of Inl e \<Rightarrow> Inl e | Inr ns \<Rightarrow> Inr (n # ns)))"

text \<open>\<open>int_each ys\<close> is \<^verbatim>\<open>int(year.strip()) for year in ys\<close>, left to right.\<close>

definition parser2_validate_arguments :: "args2 \<Rightarrow> world \<Rightarrow> pyerr + unit" where
  \<comment> \<open>\<^verbatim>\<open>validate_arguments\<close> of parser2.py\<close>
  "parser2_validate_arguments a w =
     (if arg_num_posts a \<le> 0 then Inl ValueError
      else if files w (arg_input_file a) = None then Inl FileNotFoundError
      else if arg_questions_only a \<and> arg_answers_only a then Inl ValueError
      else if arg_has_accepted a \<and> arg_no_accepted a then Inl ValueError
      else if year_out_of_range (arg_min_year a) then Inl ValueError
      else if year_out_of_range (arg_max_year a) then Inl ValueError
      else if years_inverted (arg_min_year a) (arg_max_year a) then Inl ValueError
      else if str_truthy (arg_years a)
              \<and> (int_truthy (arg_min_year a) \<or> int_truthy (arg_max_year a)) then Inl ValueError
      else Inr ())"

definition create_post_filter :: "args2 \<Rightarrow> pyerr + PostFilter" where
  \<comment> \<open>\<^verbatim>\<open>create_post_filter\<close>\<close>
  "create_post_filter a =
     (let a_post_types =
            (if arg_questions_only a then [''1'']
             else if arg_answers_only a then [''2'']
             else [''1'', ''2'']);
          a_tags_include =
            (if str_truthy (arg_include_tags a)
             then Some (map py_strip (py_split CHR '','' (the (arg_include_tags a))))
             else None);
          a_tags_exclude =
            (if str_truthy (arg_exclude_tags a)
             then Some (map py_strip (py_split CHR '','' (the (arg_exclude_tags a))))
             else None);
          a_has_accepted_answer =
            (if arg_has_accepted a then Some True
             else if arg_no_accepted a then Some False
             else None)
      in
        case (if str_truthy (arg_years a)
              then (case int_each (py_split CHR '','' (the (arg_years a))) of
                      Inl e \<Rightarrow> Inl e
                    | Inr ys \<Rightarrow> Inr (Some ys))
              else Inr None) of
          Inl e \<Rightarrow> Inl e
        | Inr a_specific_years \<Rightarrow>
            Inr (PostFilter_init (arg_min_score a) (arg_max_score a) (Some a_post_types)
                   a_tags_include a_tags_exclude (arg_min_answers a) a_has_accepted_answer
                   (arg_min_views a) (arg_min_year a) (arg_max_year a) a_specific_years))"

definition parser2_main_try :: "args2 \<Rightarrow> world \<Rightarrow> pyerr + Topic list" where
  \<comment> \<open>the \<^verbatim>\<open>try\<close> block of \<^verbatim>\<open>main\<close> in parser2.py; its value is the file written\<close>
  "parser2_main_try a w =
     (case parser2_validate_arguments a w of
        Inl e \<Rightarrow> Inl e
      | Inr u \<Rightarrow>
     (case create_post_filter a of
        Inl e \<Rightarrow> Inl e
      | Inr a_post_filter \<Rightarrow>
     (case extract_from_file (StreamingPostExtractor_init (arg_num_posts a) a_post_filter)
             (files w (arg_input_file a)) of
        Inl e \<Rightarrow> Inl e
      | Inr (extractor, unread) \<Rightarrow>
          if posts extractor = [] then Inl (SystemExit 1)
          else
            (case format_posts_to_topics_xml TopicsFormatter_init (posts extractor)
                    (writable w (arg_output a)) of
               Inl e \<Rightarrow> Inl e
             | Inr (file, formatter) \<Rightarrow> Inr file))))"

definition run_of :: "pyerr + 'f \<Rightarrow> 'f run" where
  \<comment> \<open>how the process ends: \<^verbatim>\<open>sys.exit(c)\<close> raises \<^verbatim>\<open>SystemExit\<close>, which no
      \<^verbatim>\<open>except Exception\<close> catches, and gives status \<open>c\<close>; any other exception ends in
      status 1 (through \<^verbatim>\<open>except Exception: sys.exit(1)\<close> in parser2.py, as an uncaught
      exception in parser.py); a normal return gives status 0.\<close>
  "run_of r =
     (case r of
        Inr file \<Rightarrow> Run 0 (Some file)
      | Inl e \<Rightarrow> (case e of SystemExit c \<Rightarrow> Run c None | _ \<Rightarrow> Run 1 None))"

definition parser2_main :: "args2 \<Rightarrow> world \<Rightarrow> Topic list run" where
  \<comment> \<open>\<^verbatim>\<open>main\<close> of parser2.py\<close>
  "parser2_main a w = run_of (parser2_main_try a w)"

section \<open>parser.py\<close>

definition extract_year_from_date :: "string \<Rightarrow> pyerr + int" where
  \<comment> \<open>\<^verbatim>\<open>extract_year_from_date\<close>\<close>
  "extract_year_from_date date_string =
     (case match_year date_string of
        Some g \<Rightarrow>
          (case py_int g of
             Inr n \<Rightarrow> Inr n
           | Inl e \<Rightarrow> if e = ValueError \<or> e = AttributeError then Inr 0 else Inl e)
      | None \<Rightarrow> Inr 0)"

definition set_truthy :: "int set option \<Rightarrow> bool" where
  \<comment> \<open>the truth value of an optional set: neither \<^verbatim>\<open>None\<close> nor empty\<close>
  "set_truthy x = (case x of None \<Rightarrow> False | Some ys \<Rightarrow> ys \<noteq> {})"

definition should_include_post_by_year ::
  "attrs \<Rightarrow> int option \<Rightarrow> int option \<Rightarrow> int set option \<Rightarrow> pyerr + bool" where
  \<comment> \<open>\<^verbatim>\<open>should_include_post_by_year\<close>\<close>
  "should_include_post_by_year post_attrs a_min_year a_max_year a_specific_years =
     (if a_min_year = None \<and> a_max_year = None \<and> \<not> set_truthy a_specific_years then Inr True
      else
        (let creation_date = attr_get post_attrs ''CreationDate'' '''' in
         if creation_date = [] then Inr True
         else
           (case extract_year_from_date creation_date of
              Inl e \<Rightarrow> Inl e
            | Inr post_year \<Rightarrow>
                if set_truthy a_specific_years \<and> post_year \<notin> the a_specific_years then Inr False
                else if (case a_min_year of None \<Rightarrow> False | Some m \<Rightarrow> post_year < m)
                  then Inr False
                else if (case a_max_year of None \<Rightarrow> False | Some m \<Rightarrow> post_year > m)
                  then Inr False
                else Inr True)))"

fun streaming_loop ::
  "int \<Rightarrow> int option \<Rightarrow> int option \<Rightarrow> int set option \<Rightarrow> attrs list \<Rightarrow> int \<Rightarrow> item list \<Rightarrow>
   pyerr + (attrs list \<times> item list)" where
  \<comment> \<open>the \<^verbatim>\<open>for event, elem in context\<close> loop of \<^verbatim>\<open>extract_posts_streaming\<close>, with the
      local variables \<^verbatim>\<open>posts\<close> and \<^verbatim>\<open>extracted_count\<close> as arguments\<close>
  "streaming_loop a_num_posts mn mx sy a_posts a_count [] = Inr (a_posts, [])"
| "streaming_loop a_num_posts mn mx sy a_posts a_count (Inl e # context) = Inl e"
| "streaming_loop a_num_posts mn mx sy a_posts a_count (Inr ev # context) =
     (if kind ev = End \<and> tag ev = ''row'' then
        (if a_count < a_num_posts then
           (case should_include_post_by_year (attrib ev) mn mx sy of
              Inl e \<Rightarrow> Inl e
            | Inr b \<Rightarrow>
                if b then
                  (if a_count + 1 \<ge> a_num_posts then Inr (a_posts @ [attrib ev], context)
                   else streaming_loop a_num_posts mn mx sy (a_posts @ [attrib ev])
                          (a_count + 1) context)
                else streaming_loop a_num_posts mn mx sy a_posts a_count context)
         else streaming_loop a_num_posts mn mx sy a_posts a_count context)
      else streaming_loop a_num_posts mn mx sy a_posts a_count context)"

definition exit_on_exception :: "pyerr + 'a \<Rightarrow> pyerr + 'a" where
  \<comment> \<open>\<^verbatim>\<open>except Exception: ... sys.exit(1)\<close>; \<^verbatim>\<open>SystemExit\<close> is not an \<^verbatim>\<open>Exception\<close>\<close>
  "exit_on_exception r =
     (case r of
        Inr x \<Rightarrow> Inr x
      | Inl e \<Rightarrow> (case e of SystemExit c \<Rightarrow> Inl (SystemExit c) | _ \<Rightarrow> Inl (SystemExit 1)))"

definition extract_posts_streaming ::
  "item list option \<Rightarrow> int \<Rightarrow> int option \<Rightarrow> int option \<Rightarrow> int set option \<Rightarrow>
   pyerr + (attrs list \<times> item list)" where
  \<comment> \<open>\<^verbatim>\<open>extract_posts_streaming\<close>; the list returned in Python is the first component\<close>
  "extract_posts_streaming input_file a_num_posts a_min_year a_max_year a_specific_years =
     exit_on_exception
       (case input_file of
          None \<Rightarrow> Inl FileNotFoundError
        | Some context \<Rightarrow>
            (case context of
               [] \<Rightarrow> Inl StopIteration
             | Inl e # rest \<Rightarrow> Inl e
             | Inr root # rest \<Rightarrow>
                 streaming_loop a_num_posts a_min_year a_max_year a_specific_years [] 0 rest))"

definition create_output_xml :: "attrs list \<Rightarrow> bool \<Rightarrow> pyerr + attrs list" where
  \<comment> \<open>\<^verbatim>\<open>create_output_xml\<close>: the file is the list of the \<^verbatim>\<open>row\<close> children of the root, each
      with the attributes of its post; the second argument says whether the file can be
      opened for writing\<close>
  "create_output_xml a_posts can_write =
     (if can_write then Inr a_posts else Inl (SystemExit 1))"

definition parser_validate_arguments :: "'a args_scheme \<Rightarrow> world \<Rightarrow> pyerr + unit" where
  \<comment> \<open>\<^verbatim>\<open>validate_arguments\<close> of parser.py\<close>
  "parser_validate_arguments a w =
     (if arg_num_posts a \<le> 0 then Inl (SystemExit 1)
      else if files w (arg_input_file a) = None then Inl (SystemExit 1)
      else if year_out_of_range (arg_min_year a) then Inl (SystemExit 1)
      else if year_out_of_range (arg_max_year a) then Inl (SystemExit 1)
      else if years_inverted (arg_min_year a) (arg_max_year a) then Inl (SystemExit 1)
      else if str_truthy (arg_years a)
              \<and> (int_truthy (arg_min_year a) \<or> int_truthy (arg_max_year a))
        then Inl (SystemExit 1)
      else Inr ())"

definition parser_specific_years :: "'a args_scheme \<Rightarrow> pyerr + int set option" where
  \<comment> \<open>the block of \<^verbatim>\<open>main\<close> in parser.py that reads \<^verbatim>\<open>--years\<close>: a \<^verbatim>\<open>ValueError\<close> of
      \<^verbatim>\<open>int\<close> ends in \<^verbatim>\<open>sys.exit(1)\<close>\<close>
  "parser_specific_years a =
     (if str_truthy (arg_years a)
      then (case int_each (py_split CHR '','' (the (arg_years a))) of
              Inl e \<Rightarrow> Inl (SystemExit 1)
            | Inr ys \<Rightarrow> Inr (Some (set ys)))
      else Inr None)"

definition parser_main_body :: "'a args_scheme \<Rightarrow> world \<Rightarrow> pyerr + attrs list" where
  \<comment> \<open>the body of \<^verbatim>\<open>main\<close> in parser.py; its value is the file written\<close>
  "parser_main_body a w =
     (case parser_validate_arguments a w of
        Inl e \<Rightarrow> Inl e
      | Inr u \<Rightarrow>
     (case parser_specific_years a of
        Inl e \<Rightarrow> Inl e
      | Inr a_specific_years \<Rightarrow>
     (case extract_posts_streaming (files w (arg_input_file a)) (arg_num_posts a)
             (arg_min_year a) (arg_max_year a) a_specific_years of
        Inl e \<Rightarrow> Inl e
      | Inr (a_posts, unread) \<Rightarrow>
          if a_posts = [] then Inl (SystemExit 1)
          else create_output_xml a_posts (writable w (arg_output a)))))"

definition parser_main :: "'a args_scheme \<Rightarrow> world \<Rightarrow> attrs list run" where
  \<comment> \<open>\<^verbatim>\<open>main\<close> of parser.py\<close>
  "parser_main a w = run_of (parser_main_body a w)"

section \<open>Dates with digits beyond ASCII\<close>

text \<open>
  A Python \<^verbatim>\<open>str\<close> can hold any code point, and both \<^verbatim>\<open>\d\<close> of a str pattern and \<^verbatim>\<open>int()\<close>
  accept every Unicode decimal digit, not only 0 to 9. To cover this, the year
  extractor is embedded a second time, over strings as lists of code points
  (\<open>ustr\<close>). The decimal digits are those of Unicode 14.0, the table of Python 3.11:
  66 runs of ten consecutive code points with the values 0 to 9, given here by the
  code point of each zero.
\<close>

type_synonym ustr = "nat list"

definition decimal_zeros :: "nat list" where
  "decimal_zeros =
     [48, 1632, 1776, 1984, 2406, 2534, 2662, 2790, 2918, 3046, 3174, 3302, 3430, 3558,
      3664, 3792, 3872, 4160, 4240, 6112, 6160, 6470, 6608, 6784, 6800, 6992, 7088, 7232,
      7248, 42528, 43216, 43264, 43472, 43504, 43600, 44016, 65296, 66720, 68912, 69734,
      69872, 69942, 70096, 70384, 70736, 70864, 71248, 71360, 71472, 71904, 72016, 72784,
      73040, 73120, 92768, 92864, 93008, 120782, 120792, 120802, 120812, 120822, 123200,
      123632, 125264, 130032]"

definition unicode_decimal :: "nat \<Rightarrow> nat option" where
  \<comment> \<open>the decimal value of a code point, \<open>None\<close> when it is no decimal digit: a code point
      matches \<^verbatim>\<open>\d\<close> exactly when it has one\<close>
  "unicode_decimal x =
     (case find (\<lambda>z. z \<le> x \<and> x < z + 10) decimal_zeros of
        None \<Rightarrow> None
      | Some z \<Rightarrow> Some (x - z))"

definition unicode_isspace :: "nat \<Rightarrow> bool" where
  \<comment> \<open>\<^verbatim>\<open>str.isspace\<close> of a code point\<close>
  "unicode_isspace x =
     ((9 \<le> x \<and> x \<le> 13) \<or> (28 \<le> x \<and> x \<le> 32) \<or> x = 133 \<or> x = 160 \<or> x = 5760
      \<or> (8192 \<le> x \<and> x \<le> 8202) \<or> x = 8232 \<or> x = 8233 \<or> x = 8239 \<or> x = 8287
      \<or> x = 12288)"

text \<open>
  \<^verbatim>\<open>int(s)\<close> first rewrites a str to ASCII: a code point below 127 stays, any other
  whitespace becomes a space, any other decimal digit becomes the ASCII digit of its
  value, and at the first code point that is neither the text ends with a question
  mark. Then it reads the ASCII text as \<open>py_int\<close> does.
\<close>

fun to_ascii :: "ustr \<Rightarrow> string" where
  "to_ascii [] = []"
| "to_ascii (x # xs) =
     (if x < 127 then char_of x # to_ascii xs
      else if unicode_isspace x then CHR '' '' # to_ascii xs
      else (case unicode_decimal x of
              None \<Rightarrow> ''?''
            | Some d \<Rightarrow> char_of (48 + d) # to_ascii xs))"

definition py_int_u :: "ustr \<Rightarrow> pyerr + int" where
  \<comment> \<open>\<^verbatim>\<open>int(s)\<close> for a str of any code points\<close>
  "py_int_u u = py_int (to_ascii u)"

definition match_year_u :: "ustr \<Rightarrow> ustr option" where
  \<comment> \<open>\<^verbatim>\<open>re.match(r'^(\d{4})', s)\<close>: group 1 of the match, \<open>None\<close> when there is none\<close>
  "match_year_u u =
     (if 4 \<le> length u \<and> list_all (\<lambda>x. unicode_decimal x \<noteq> None) (take 4 u)
      then Some (take 4 u) else None)"

definition extract_year_from_date_u :: "ustr \<Rightarrow> pyerr + int" where
  \<comment> \<open>\<^verbatim>\<open>extract_year_from_date\<close> of parser.py\<close>
  "extract_year_from_date_u date_string =
     (case match_year_u date_string of
        Some g \<Rightarrow>
          (case py_int_u g of
             Inr n \<Rightarrow> Inr n
           | Inl e \<Rightarrow> if e = ValueError \<or> e = AttributeError then Inr 0 else Inl e)
      | None \<Rightarrow> Inr 0)"

definition PostFilter_extract_year_from_date_u :: "ustr \<Rightarrow> pyerr + int" where
  \<comment> \<open>\<^verbatim>\<open>PostFilter._extract_year_from_date\<close> of parser2.py\<close>
  "PostFilter_extract_year_from_date_u date_string =
     (case match_year_u date_string of
        Some g \<Rightarrow>
          (case py_int_u g of
             Inr n \<Rightarrow> Inr n
           | Inl e \<Rightarrow> if e = ValueError \<or> e = AttributeError then Inr 0 else Inl e)
      | None \<Rightarrow> Inr 0)"

section \<open>Notions used to state the properties\<close>

definition int_ok :: "string \<Rightarrow> bool" where
  \<comment> \<open>\<^verbatim>\<open>int(s)\<close> returns\<close>
  "int_ok s = (case py_int s of Inl e \<Rightarrow> False | Inr n \<Rightarrow> True)"

definition numeric_or_absent :: "attrs \<Rightarrow> string \<Rightarrow> bool" where
  \<comment> \<open>the record has no attribute \<open>key\<close>, or one that \<^verbatim>\<open>int()\<close> reads\<close>
  "numeric_or_absent post_attrs key =
     (case map_of post_attrs key of None \<Rightarrow> True | Some v \<Rightarrow> int_ok v)"

definition document :: "attrs list \<Rightarrow> item list" where
  \<comment> \<open>what \<^verbatim>\<open>iterparse\<close> yields for a root element \<^verbatim>\<open>posts\<close> whose children are the
      empty elements \<^verbatim>\<open>row\<close> with the given attributes\<close>
  "document rs =
     Inr (Event Start ''posts'' [])
       # concat (map (\<lambda>r. [Inr (Event Start ''row'' r), Inr (Event End ''row'' r)]) rs)
       @ [Inr (Event End ''posts'' [])]"

definition scenario_filter :: PostFilter where
  \<comment> \<open>\<^verbatim>\<open>PostFilter(min_score=0, post_types=['1'])\<close>\<close>
  "scenario_filter =
     PostFilter_init (Some 0) None (Some [''1'']) None None None None None None None None"

definition scenario_row :: "string \<Rightarrow> string \<Rightarrow> attrs" where
  "scenario_row post_type score = [(''PostTypeId'', post_type), (''Score'', score)]"

definition scenario_rows :: "attrs list" where
  "scenario_rows =
     [scenario_row ''1'' ''10'', scenario_row ''2'' ''1'', scenario_row ''1'' ''-3'',
      scenario_row ''1'' ''7'', scenario_row ''2'' ''2'']"

definition questions_only_args :: args2 where
  \<comment> \<open>\<^verbatim>\<open>parser2.py posts.xml 5 -o out.xml --questions-only\<close>\<close>
  "questions_only_args =
     \<lparr> arg_input_file = ''posts.xml'', arg_num_posts = 5, arg_output = ''out.xml'',
       arg_verbose = False, arg_min_year = None, arg_max_year = None, arg_years = None,
       arg_questions_only = True, arg_answers_only = False, arg_min_score = None,
       arg_max_score = None, arg_min_answers = None, arg_min_views = None,
       arg_has_accepted = False, arg_no_accepted = False, arg_include_tags = None,
       arg_exclude_tags = None \<rparr>"

definition from_2015_args :: args where
  \<comment> \<open>\<^verbatim>\<open>parser.py posts.xml 5 -o out.xml --min-year 2015\<close>\<close>
  "from_2015_args =
     \<lparr> arg_input_file = ''posts.xml'', arg_num_posts = 5, arg_output = ''out.xml'',
       arg_verbose = False, arg_min_year = Some 2015, arg_max_year = None, arg_years = None \<rparr>"

definition one_file :: "attrs list \<Rightarrow> world" where
  \<comment> \<open>a file system whose only file is \<^verbatim>\<open>posts.xml\<close>, with the given records, and where
      every path can be written\<close>
  "one_file rs =
     \<lparr> files = (\<lambda>path. if path = ''posts.xml'' then Some (document rs) else None),
       writable = (\<lambda>path. True) \<rparr>"

definition is_row :: "event \<Rightarrow> bool" where
  \<comment> \<open>the test of both loops: \<^verbatim>\<open>event == 'end' and elem.tag == 'row'\<close>\<close>
  "is_row ev = (kind ev = End \<and> tag ev = ''row'')"

definition rows :: "event list \<Rightarrow> attrs list" where
  \<comment> \<open>the records of a sequence of events, in stream order\<close>
  "rows evs = map attrib (filter is_row evs)"

definition accepts :: "PostFilter \<Rightarrow> attrs \<Rightarrow> bool" where
  \<comment> \<open>the filter of parser2.py returns \<^verbatim>\<open>True\<close> on the record\<close>
  "accepts flt r = (should_include_post flt r = Inr True)"

definition evaluates :: "PostFilter \<Rightarrow> attrs \<Rightarrow> bool" where
  \<comment> \<open>the filter of parser2.py returns on the record: it does not raise\<close>
  "evaluates flt r = (\<not> isl (should_include_post flt r))"

definition in_years :: "int option \<Rightarrow> int option \<Rightarrow> int set option \<Rightarrow> attrs \<Rightarrow> bool" where
  \<comment> \<open>the filter of parser.py returns \<^verbatim>\<open>True\<close> on the record\<close>
  "in_years mn mx sy r = (should_include_post_by_year r mn mx sy = Inr True)"

definition scanned :: "StreamingPostExtractor \<Rightarrow> event list \<Rightarrow> StreamingPostExtractor" where
  \<comment> \<open>the extractor after it has gone through the events \<open>evs\<close>: every record counted,
      the accepted ones appended in stream order\<close>
  "scanned self evs =
     self\<lparr> total_processed := total_processed self + int (length (rows evs)),
           posts := posts self @ filter (accepts (post_filter self)) (rows evs),
           extracted_count :=
             extracted_count self + int (length (filter (accepts (post_filter self)) (rows evs))) \<rparr>"

section \<open>Properties of the Python primitives\<close>

lemma decimal_chars:
  assumes "py_isdecimal c"
  shows "\<not> int_isspace c" "c \<noteq> CHR ''_''" "c \<noteq> CHR ''-''" "c \<noteq> CHR ''+''"
  using assms by (auto simp: py_isdecimal_def int_isspace_def Let_def)

lemma isdecimal_iff: "py_isdecimal c \<longleftrightarrow> c \<in> set ''0123456789''"
proof -
  have range: "\<And>n::nat. n \<in> {48, 49, 50, 51, 52, 53, 54, 55, 56, 57} \<longleftrightarrow> 48 \<le> n \<and> n \<le> 57"
    by (simp; arith)
  have eq: "\<And>x. c = x \<longleftrightarrow> (of_char c :: nat) = of_char x"
    by simp
  have "(c \<in> set ''0123456789'') \<longleftrightarrow> (of_char c :: nat) \<in> {48, 49, 50, 51, 52, 53, 54, 55, 56, 57}"
    by (simp add: eq del: of_char_eq_iff)
  also have "\<dots> \<longleftrightarrow> 48 \<le> (of_char c :: nat) \<and> (of_char c :: nat) \<le> 57"
    using range [of "of_char c"] .
  finally show ?thesis
    by (simp add: py_isdecimal_def Let_def)
qed

lemma py_int_digits_raises: "py_int_digits s = Inl e \<Longrightarrow> e = ValueError"
  by (simp add: py_int_digits_def Let_def split: if_splits)

lemma py_int_raises: "py_int s = Inl e \<Longrightarrow> e = ValueError"
  by (auto simp: py_int_def split: list.splits if_splits sum.splits dest: py_int_digits_raises)

lemma py_int_four_digits:
  assumes "py_isdecimal a" "py_isdecimal b" "py_isdecimal c" "py_isdecimal d"
  shows "py_int [a, b, c, d] =
           Inr (1000 * digit_val a + 100 * digit_val b + 10 * digit_val c + digit_val d)"
proof -
  have strip: "rev (dropWhile int_isspace (rev (dropWhile int_isspace [a, b, c, d])))
                 = [a, b, c, d]"
    using assms by (simp add: decimal_chars)
  have digits: "py_int_digits [a, b, c, d] =
           Inr (1000 * digit_val a + 100 * digit_val b + 10 * digit_val c + digit_val d)"
    using assms by (simp add: py_int_digits_def decimal_chars max_str_digits_def)
  show ?thesis
    unfolding py_int_def strip using assms(1) by (simp add: digits decimal_chars)
qed

section \<open>The year of a date\<close>

lemma match_year_Some:
  assumes "py_isdecimal a" "py_isdecimal b" "py_isdecimal c" "py_isdecimal d"
  shows "match_year (a # b # c # d # rest) = Some [a, b, c, d]"
  using assms by (simp add: match_year_def)

lemma match_year_None:
  assumes "\<not> (\<exists>a b c d rest. s = a # b # c # d # rest \<and> py_isdecimal a \<and> py_isdecimal b
               \<and> py_isdecimal c \<and> py_isdecimal d)"
  shows "match_year s = None"
proof (cases "4 \<le> length s")
  case False
  then show ?thesis by (simp add: match_year_def)
next
  case True
  then obtain a b c d rest where s: "s = a # b # c # d # rest"
    by (cases s; simp; rename_tac x xs; case_tac xs; simp; rename_tac y ys; case_tac ys; simp;
        rename_tac z zs; case_tac zs; simp)
  with assms show ?thesis by (auto simp: match_year_def)
qed

lemma extract_year_total: "\<exists>n. extract_year_from_date s = Inr n"
  by (auto simp: extract_year_from_date_def split: option.splits sum.splits dest: py_int_raises)

lemma same_year: "PostFilter_extract_year_from_date s = extract_year_from_date s"
  by (simp add: PostFilter_extract_year_from_date_def extract_year_from_date_def)

section \<open>The year of a date, for any code points\<close>

lemma unicode_decimal_zero:
  assumes "unicode_decimal x = Some d"
  shows "\<exists>z. z \<in> set decimal_zeros \<and> z \<le> x \<and> x < z + 10 \<and> d = x - z"
proof -
  from assms obtain z where z: "find (\<lambda>z. z \<le> x \<and> x < z + 10) decimal_zeros = Some z" "d = x - z"
    by (auto simp: unicode_decimal_def split: option.splits)
  then have "z \<in> set decimal_zeros \<and> z \<le> x \<and> x < z + 10"
    by (auto simp: find_Some_iff)
  with z(2) show ?thesis by blast
qed

lemma unicode_decimal_less: "unicode_decimal x = Some d \<Longrightarrow> d < 10"
  by (drule unicode_decimal_zero) auto

lemma decimal_zeros_where:
  "list_all (\<lambda>z. z = 48 \<or> (160 < z \<and> z + 9 < 5760) \<or> (5760 < z \<and> z + 9 < 8192)
                  \<or> 12288 < z) decimal_zeros"
  by (simp add: decimal_zeros_def)

lemma decimal_zeros_cases:
  assumes "z \<in> set decimal_zeros"
  shows "z = 48 \<or> (160 < z \<and> z + 9 < 5760) \<or> (5760 < z \<and> z + 9 < 8192) \<or> 12288 < z"
  using decimal_zeros_where assms unfolding list_all_iff by blast

lemma decimal_zeros_ascii: "z \<in> set decimal_zeros \<Longrightarrow> z = 48 \<or> 1632 \<le> z"
proof -
  have "list_all (\<lambda>z. z = 48 \<or> 1632 \<le> z) decimal_zeros"
    by (simp add: decimal_zeros_def)
  then show "z \<in> set decimal_zeros \<Longrightarrow> z = 48 \<or> 1632 \<le> z"
    unfolding list_all_iff by blast
qed

lemma unicode_decimal_ascii:
  assumes "unicode_decimal x = Some d" "x < 127"
  shows "x = 48 + d"
proof -
  from unicode_decimal_zero [OF assms(1)] obtain z
    where z: "z \<in> set decimal_zeros" "z \<le> x" "x < z + 10" "d = x - z"
    by blast
  from decimal_zeros_ascii [OF z(1)] z(2) assms(2) have "z = 48" by auto
  with z show ?thesis by simp
qed

lemma ascii_digit_decimal:
  assumes "48 \<le> x" "x \<le> 57"
  shows "unicode_decimal x = Some (x - 48)"
proof -
  have "find (\<lambda>z. z \<le> x \<and> x < z + 10) decimal_zeros = Some 48"
    using assms by (simp add: decimal_zeros_def)
  then show ?thesis by (simp add: unicode_decimal_def)
qed

lemma unicode_decimal_not_space:
  assumes "unicode_decimal x = Some d" "127 \<le> x"
  shows "\<not> unicode_isspace x"
proof -
  from unicode_decimal_zero [OF assms(1)] obtain z
    where z: "z \<in> set decimal_zeros" "z \<le> x" "x < z + 10"
    by blast
  from decimal_zeros_cases [OF z(1)] z(2,3) assms(2)
  have "(160 < x \<and> x < 5760) \<or> (5760 < x \<and> x < 8192) \<or> 12288 < x"
    by arith
  then show ?thesis
    by (auto simp: unicode_isspace_def)
qed

lemma ascii_char_of_decimal:
  assumes "d < 10"
  shows "py_isdecimal (char_of (48 + d))" "digit_val (char_of (48 + d)) = int d"
  using assms by (simp_all add: py_isdecimal_def digit_val_def Let_def)

lemma to_ascii_decimal:
  assumes "unicode_decimal x = Some d"
  shows "to_ascii (x # xs) = char_of (48 + d) # to_ascii xs"
proof (cases "x < 127")
  case True
  with unicode_decimal_ascii [OF assms] show ?thesis by simp
next
  case False
  with unicode_decimal_not_space [OF assms] assms show ?thesis by simp
qed

lemma py_int_u_four_digits:
  assumes "unicode_decimal a = Some da" "unicode_decimal b = Some db"
    "unicode_decimal c = Some dc" "unicode_decimal d = Some dd"
  shows "py_int_u [a, b, c, d] = Inr (1000 * int da + 100 * int db + 10 * int dc + int dd)"
proof -
  have "to_ascii [a, b, c, d]
          = [char_of (48 + da), char_of (48 + db), char_of (48 + dc), char_of (48 + dd)]"
    by (simp add: to_ascii_decimal assms del: to_ascii.simps(2))
  moreover have "da < 10" "db < 10" "dc < 10" "dd < 10"
    using assms by (auto dest: unicode_decimal_less)
  ultimately show ?thesis
    by (simp add: py_int_u_def py_int_four_digits ascii_char_of_decimal)
qed

lemma match_year_u_Some:
  assumes "unicode_decimal a = Some da" "unicode_decimal b = Some db"
    "unicode_decimal c = Some dc" "unicode_decimal d = Some dd"
  shows "match_year_u (a # b # c # d # rest) = Some [a, b, c, d]"
  using assms by (simp add: match_year_u_def)

lemma match_year_u_None:
  assumes "\<not> (\<exists>a b c d rest. u = a # b # c # d # rest \<and> unicode_decimal a \<noteq> None
               \<and> unicode_decimal b \<noteq> None \<and> unicode_decimal c \<noteq> None
               \<and> unicode_decimal d \<noteq> None)"
  shows "match_year_u u = None"
proof (cases "4 \<le> length u")
  case False
  then show ?thesis by (simp add: match_year_u_def)
next
  case True
  then obtain a b c d rest where u: "u = a # b # c # d # rest"
    by (cases u; simp; rename_tac x xs; case_tac xs; simp; rename_tac y ys; case_tac ys; simp;
        rename_tac z zs; case_tac zs; simp)
  with assms show ?thesis by (auto simp: match_year_u_def)
qed

lemma py_int_u_raises: "py_int_u u = Inl e \<Longrightarrow> e = ValueError"
  by (simp add: py_int_u_def py_int_raises)

lemma extract_year_u_total: "\<exists>n. extract_year_from_date_u u = Inr n"
  by (auto simp: extract_year_from_date_u_def split: option.splits sum.splits
           dest: py_int_u_raises)

lemma same_year_u: "PostFilter_extract_year_from_date_u u = extract_year_from_date_u u"
  by (simp add: PostFilter_extract_year_from_date_u_def extract_year_from_date_u_def)

lemma latin1_decimal: "unicode_decimal (of_char c) \<noteq> None \<longleftrightarrow> py_isdecimal c"
proof
  assume "unicode_decimal (of_char c) \<noteq> None"
  then obtain d where d: "unicode_decimal (of_char c) = Some d" by blast
  from unicode_decimal_zero [OF this] obtain z
    where z: "z \<in> set decimal_zeros" "z \<le> of_char c" "of_char c < z + 10"
    by blast
  have "(of_char c :: nat) < 256"
    using range_nat_of_char by (metis atLeastLessThan_iff rangeI)
  with decimal_zeros_ascii [OF z(1)] z(2) have "z = 48" by auto
  with z show "py_isdecimal c" by (simp add: py_isdecimal_def Let_def)
next
  assume "py_isdecimal c"
  then have "48 \<le> (of_char c :: nat)" "(of_char c :: nat) \<le> 57"
    by (simp_all add: py_isdecimal_def Let_def)
  from ascii_digit_decimal [OF this] show "unicode_decimal (of_char c) \<noteq> None" by simp
qed

lemma latin1_year: "extract_year_from_date_u (map of_char s) = extract_year_from_date s"
proof (cases "\<exists>a b c d rest. s = a # b # c # d # rest \<and> py_isdecimal a \<and> py_isdecimal b
               \<and> py_isdecimal c \<and> py_isdecimal d")
  case True
  then obtain a b c d rest where s: "s = a # b # c # d # rest"
    and dec: "py_isdecimal a" "py_isdecimal b" "py_isdecimal c" "py_isdecimal d"
    by blast
  have val: "unicode_decimal (of_char x) = Some (of_char x - 48)" "digit_val x = int (of_char x - 48)"
    if "py_isdecimal x" for x
    using that by (simp_all add: py_isdecimal_def Let_def ascii_digit_decimal digit_val_def)
  have "extract_year_from_date_u (map of_char s)
          = Inr (1000 * digit_val a + 100 * digit_val b + 10 * digit_val c + digit_val d)"
    using dec
    by (simp add: s extract_year_from_date_u_def
          match_year_u_Some [OF val(1) val(1) val(1) val(1)]
          py_int_u_four_digits [OF val(1) val(1) val(1) val(1)] val(2))
  moreover have "extract_year_from_date s
          = Inr (1000 * digit_val a + 100 * digit_val b + 10 * digit_val c + digit_val d)"
    using dec by (simp add: s extract_year_from_date_def match_year_Some py_int_four_digits)
  ultimately show ?thesis by simp
next
  case False
  then have "match_year s = None"
    by (intro match_year_None)
  moreover have "match_year_u (map of_char s) = None"
  proof (intro match_year_u_None notI)
    assume "\<exists>a b c d rest. map of_char s = a # b # c # d # rest \<and> unicode_decimal a \<noteq> None
               \<and> unicode_decimal b \<noteq> None \<and> unicode_decimal c \<noteq> None
               \<and> unicode_decimal d \<noteq> None"
    then obtain a b c d rest where "s = a # b # c # d # rest"
      "unicode_decimal (of_char a) \<noteq> None" "unicode_decimal (of_char b) \<noteq> None"
      "unicode_decimal (of_char c) \<noteq> None" "unicode_decimal (of_char d) \<noteq> None"
      by (auto simp: map_eq_Cons_conv)
    then have "s = a # b # c # d # rest \<and> py_isdecimal a \<and> py_isdecimal b
               \<and> py_isdecimal c \<and> py_isdecimal d"
      by (simp only: latin1_decimal simp_thms)
    with False show False by blast
  qed
  ultimately show ?thesis
    by (simp add: extract_year_from_date_u_def extract_year_from_date_def)
qed

text \<open>
  Claim C4, as amended. The year extractor, in parser.py and in parser2.py alike, never
  raises: it always returns an integer. On a string that starts with four decimal
  digits, of ASCII or of any other script, it returns the number that the values of
  these four digits form, whatever follows them; the ASCII digits 0 to 9 have the
  values 0 to 9. On any string that does not start with four decimal digits it
  returns 0. On strings of code points below 256 this is the extractor that the
  filters above call.
\<close>

theorem year_of_date:
  "(\<exists>n. extract_year_from_date_u u = Inr n)
   \<and> PostFilter_extract_year_from_date_u u = extract_year_from_date_u u
   \<and> (\<forall>a b c d da db dc dd rest.
        u = a # b # c # d # rest \<and> unicode_decimal a = Some da \<and> unicode_decimal b = Some db
          \<and> unicode_decimal c = Some dc \<and> unicode_decimal d = Some dd \<longrightarrow>
        extract_year_from_date_u u = Inr (1000 * int da + 100 * int db + 10 * int dc + int dd))
   \<and> ((\<nexists>a b c d rest. u = a # b # c # d # rest \<and> unicode_decimal a \<noteq> None
          \<and> unicode_decimal b \<noteq> None \<and> unicode_decimal c \<noteq> None
          \<and> unicode_decimal d \<noteq> None) \<longrightarrow>
        extract_year_from_date_u u = Inr 0)
   \<and> (\<forall>x. 48 \<le> x \<and> x \<le> 57 \<longrightarrow> unicode_decimal x = Some (x - 48))
   \<and> extract_year_from_date s = extract_year_from_date_u (map of_char s)
   \<and> PostFilter_extract_year_from_date s = PostFilter_extract_year_from_date_u (map of_char s)"
proof (intro conjI allI impI)
  show "\<exists>n. extract_year_from_date_u u = Inr n"
    by (rule extract_year_u_total)
next
  show "PostFilter_extract_year_from_date_u u = extract_year_from_date_u u"
    by (rule same_year_u)
next
  fix a b c d da db dc dd rest
  assume "u = a # b # c # d # rest \<and> unicode_decimal a = Some da \<and> unicode_decimal b = Some db
          \<and> unicode_decimal c = Some dc \<and> unicode_decimal d = Some dd"
  then have u: "u = a # b # c # d # rest"
    and dec: "unicode_decimal a = Some da" "unicode_decimal b = Some db"
      "unicode_decimal c = Some dc" "unicode_decimal d = Some dd"
    by simp_all
  show "extract_year_from_date_u u = Inr (1000 * int da + 100 * int db + 10 * int dc + int dd)"
    by (simp add: u extract_year_from_date_u_def match_year_u_Some [OF dec]
          py_int_u_four_digits [OF dec])
next
  assume "\<nexists>a b c d rest. u = a # b # c # d # rest \<and> unicode_decimal a \<noteq> None
          \<and> unicode_decimal b \<noteq> None \<and> unicode_decimal c \<noteq> None
          \<and> unicode_decimal d \<noteq> None"
  then have "match_year_u u = None"
    by (rule match_year_u_None)
  then show "extract_year_from_date_u u = Inr 0"
    by (simp add: extract_year_from_date_u_def)
next
  fix x :: nat
  assume "48 \<le> x \<and> x \<le> 57"
  then show "unicode_decimal x = Some (x - 48)"
    by (simp add: ascii_digit_decimal)
next
  show "extract_year_from_date s = extract_year_from_date_u (map of_char s)"
    by (simp add: latin1_year)
next
  show "PostFilter_extract_year_from_date s = PostFilter_extract_year_from_date_u (map of_char s)"
    by (simp add: latin1_year same_year same_year_u)
qed

theorem year_of_date_witness:
  "extract_year_from_date_u [1634, 48, 2407, 65301, 45, 48, 55] = Inr 2015
   \<and> extract_year_from_date_u (map of_char ''15-07-2015'') = Inr 0
   \<and> extract_year_from_date ''2015-07-14T19:35:44.557'' = Inr 2015
   \<and> PostFilter_extract_year_from_date ''2015-07-14T19:35:44.557'' = Inr 2015"
proof -
  let ?date = "''2015-07-14T19:35:44.557''"
  note mixed = year_of_date [where u = "[1634, 48, 2407, 65301, 45, 48, 55]" and s = ?date]
  note other = year_of_date [where u = "map of_char ''15-07-2015''" and s = ?date]
  note ascii = year_of_date [where u = "map of_char ?date" and s = ?date]
  have dec: "unicode_decimal 1634 = Some 2" "unicode_decimal 48 = Some 0"
    "unicode_decimal 2407 = Some 1" "unicode_decimal 65301 = Some 5"
    "unicode_decimal 50 = Some 2" "unicode_decimal 49 = Some 1" "unicode_decimal 53 = Some 5"
    "unicode_decimal 45 = None"
    by (simp_all add: unicode_decimal_def decimal_zeros_def)
  have "extract_year_from_date_u [1634, 48, 2407, 65301, 45, 48, 55]
          = Inr (1000 * int 2 + 100 * int 0 + 10 * int 1 + int 5)"
    by (rule mixed [THEN conjunct2, THEN conjunct2, THEN conjunct1, rule_format,
          where a = 1634 and b = 48 and c = 2407 and d = 65301 and rest = "[45, 48, 55]"])
       (simp add: dec)
  then have one: "extract_year_from_date_u [1634, 48, 2407, 65301, 45, 48, 55] = Inr 2015"
    by simp
  have "\<nexists>a b c d rest. map of_char ''15-07-2015'' = a # b # c # d # rest
          \<and> unicode_decimal a \<noteq> None \<and> unicode_decimal b \<noteq> None
          \<and> unicode_decimal c \<noteq> None \<and> unicode_decimal (d :: nat) \<noteq> None"
    using dec(8) by auto
  with other [THEN conjunct2, THEN conjunct2, THEN conjunct2, THEN conjunct1]
  have two: "extract_year_from_date_u (map of_char ''15-07-2015'') = Inr 0"
    by (rule mp)
  have "extract_year_from_date_u (map of_char ?date)
          = Inr (1000 * int 2 + 100 * int 0 + 10 * int 1 + int 5)"
    by (rule ascii [THEN conjunct2, THEN conjunct2, THEN conjunct1, rule_format,
          where a = 50 and b = 48 and c = 49 and d = 53
            and rest = "map of_char ''-07-14T19:35:44.557''"])
       (simp add: dec)
  then have u: "extract_year_from_date_u (map of_char ?date) = Inr 2015"
    by simp
  have three: "extract_year_from_date ?date = Inr 2015"
    using ascii [THEN conjunct2, THEN conjunct2, THEN conjunct2, THEN conjunct2,
        THEN conjunct2, THEN conjunct1] u by simp
  have four: "PostFilter_extract_year_from_date ?date = Inr 2015"
    using ascii [THEN conjunct2, THEN conjunct2, THEN conjunct2, THEN conjunct2,
        THEN conjunct2, THEN conjunct2] ascii [THEN conjunct2, THEN conjunct1] u by simp
  show ?thesis
    using one two three four by (intro conjI)
qed

text \<open>
  Claim C4 as stated fails: the string of the four Arabic-Indic digits for 2015 (the
  code points 1634, 1632, 1633 and 1637) holds no ASCII digit, and both extractors
  return 2015 on it, not 0.
\<close>

theorem year_of_date_counterexample:
  "extract_year_from_date_u [1634, 1632, 1633, 1637] = Inr 2015
   \<and> PostFilter_extract_year_from_date_u [1634, 1632, 1633, 1637] = Inr 2015
   \<and> list_all (\<lambda>x. x < 48 \<or> 57 < x) [1634, 1632, 1633, 1637 :: nat]"
proof -
  have dec: "unicode_decimal 1634 = Some 2" "unicode_decimal 1632 = Some 0"
    "unicode_decimal 1633 = Some 1" "unicode_decimal 1637 = Some 5"
    by (simp_all add: unicode_decimal_def decimal_zeros_def)
  have "extract_year_from_date_u [1634, 1632, 1633, 1637] = Inr 2015"
    by (simp add: extract_year_from_date_u_def match_year_u_Some [OF dec]
          py_int_u_four_digits [OF dec])
  then show ?thesis
    by (simp add: same_year_u)
qed

section \<open>The filter of parser2.py\<close>

lemmas block_defs = score_block_def views_block_def answers_block_def accepted_block_def
  tags_block_def year_block_def

lemma py_int_zero: "py_int ''0'' = Inr 0"
  by code_simp

lemma numeric_field:
  assumes "numeric_or_absent r key"
  shows "\<not> isl (py_int (attr_get r key ''0''))"
  using assms
  by (auto simp: numeric_or_absent_def attr_get_def int_ok_def py_int_zero
           split: option.splits sum.splits)

lemma and_then_returns: "\<not> isl r \<Longrightarrow> \<not> isl k \<Longrightarrow> \<not> isl (and_then r k)"
  by (cases r) (simp_all add: and_then_def)

lemma score_block_returns:
  "numeric_or_absent r ''Score'' \<Longrightarrow> \<not> isl (score_block flt r)"
  by (drule numeric_field) (auto simp: score_block_def split: sum.splits)

lemma views_block_returns:
  "numeric_or_absent r ''ViewCount'' \<Longrightarrow> \<not> isl (views_block flt t r)"
  by (drule numeric_field) (auto simp: views_block_def split: option.splits sum.splits)

lemma answers_block_returns:
  "numeric_or_absent r ''AnswerCount'' \<Longrightarrow> \<not> isl (answers_block flt t r)"
  by (drule numeric_field) (auto simp: answers_block_def split: option.splits sum.splits)

lemma accepted_block_returns: "\<not> isl (accepted_block flt t r)"
  by (simp add: accepted_block_def Let_def split: option.splits)

lemma tags_block_returns: "\<not> isl (tags_block flt t r)"
  by (simp add: tags_block_def Let_def)

lemma year_block_returns: "\<not> isl (year_block flt r)"
proof -
  obtain n where "extract_year_from_date (attr_get r ''CreationDate'' []) = Inr n"
    using extract_year_total by blast
  then show ?thesis
    by (simp add: year_block_def Let_def same_year)
qed

lemma should_include_post_returns:
  assumes "numeric_or_absent r ''Score''" "numeric_or_absent r ''ViewCount''"
    "numeric_or_absent r ''AnswerCount''"
  shows "\<not> isl (should_include_post flt r)"
proof (cases "attr_get r ''PostTypeId'' ''1'' \<in> set (post_types flt)")
  case False
  then show ?thesis by (simp add: should_include_post_def)
next
  case True
  have "\<not> isl (and_then (score_block flt r)
       (and_then (views_block flt t r)
       (and_then (answers_block flt t r)
       (and_then (accepted_block flt t r)
       (and_then (tags_block flt t r) (year_block flt r))))))" for t
    by (intro and_then_returns score_block_returns views_block_returns answers_block_returns
          accepted_block_returns tags_block_returns year_block_returns assms)
  with True show ?thesis by (simp add: should_include_post_def Let_def)
qed

lemma attr_get_default:
  assumes "map_of r key = None"
  shows "attr_get ((key, d) # r) k d' = (if k = key then d else attr_get r k d')"
    and "attr_get r key d = d"
    and "attr_in k ((key, d) # r) = (k = key \<or> attr_in k r)"
  using assms by (auto simp: attr_get_def attr_in_def)

lemma should_include_post_cong:
  assumes "attr_get r ''PostTypeId'' ''1'' = attr_get r' ''PostTypeId'' ''1''"
    and "attr_get r ''Score'' ''0'' = attr_get r' ''Score'' ''0''"
    and "attr_get r ''ViewCount'' ''0'' = attr_get r' ''ViewCount'' ''0''"
    and "attr_get r ''AnswerCount'' ''0'' = attr_get r' ''AnswerCount'' ''0''"
    and "attr_in ''AcceptedAnswerId'' r = attr_in ''AcceptedAnswerId'' r'"
    and "attr_get r ''Tags'' [] = attr_get r' ''Tags'' []"
    and "attr_get r ''CreationDate'' [] = attr_get r' ''CreationDate'' []"
  shows "should_include_post flt r = should_include_post flt r'"
  unfolding should_include_post_def block_defs assms by (rule refl)

lemma absent_reads_as_zero:
  assumes "key \<in> set [''Score'', ''ViewCount'', ''AnswerCount'']" "map_of r key = None"
  shows "should_include_post flt ((key, ''0'') # r) = should_include_post flt r"
  using assms(1)
  by (intro should_include_post_cong) (auto simp: attr_get_default [OF assms(2)])

text \<open>
  Claim C1, as amended. The filter reads \<^verbatim>\<open>Score\<close>, \<^verbatim>\<open>ViewCount\<close> and \<^verbatim>\<open>AnswerCount\<close>
  with \<^verbatim>\<open>int(post_attrs.get(key, '0'))\<close> and nothing catches what \<^verbatim>\<open>int\<close> raises. For
  every filter and every record in which each of the three attributes is absent or a
  string that \<^verbatim>\<open>int()\<close> reads, \<^verbatim>\<open>should_include_post\<close> returns a boolean; and an absent
  attribute counts as 0: the record is judged as the same record with the attribute
  set to \<^verbatim>\<open>"0"\<close>.
\<close>

theorem numeric_fields_do_not_raise:
  assumes "numeric_or_absent post_attrs ''Score''"
    and "numeric_or_absent post_attrs ''ViewCount''"
    and "numeric_or_absent post_attrs ''AnswerCount''"
  shows "(\<exists>b. should_include_post flt post_attrs = Inr b)
       \<and> (\<forall>key. key \<in> set [''Score'', ''ViewCount'', ''AnswerCount'']
                \<and> map_of post_attrs key = None \<longrightarrow>
              should_include_post flt ((key, ''0'') # post_attrs)
                = should_include_post flt post_attrs)"
proof -
  have "\<exists>b. should_include_post flt post_attrs = Inr b"
    using should_include_post_returns [OF assms, of flt]
    by (cases "should_include_post flt post_attrs") simp_all
  then show ?thesis
    using absent_reads_as_zero by blast
qed

theorem numeric_fields_do_not_raise_witness:
  "numeric_or_absent [(''PostTypeId'', ''1''), (''Score'', ''-3'')] ''Score''
   \<and> numeric_or_absent [(''PostTypeId'', ''1''), (''Score'', ''-3'')] ''ViewCount''
   \<and> numeric_or_absent [(''PostTypeId'', ''1''), (''Score'', ''-3'')] ''AnswerCount''
   \<and> (\<exists>b. should_include_post
        (PostFilter_init (Some (- 5)) None None None None None None (Some 10) None None None)
        [(''PostTypeId'', ''1''), (''Score'', ''-3'')] = Inr b)
   \<and> should_include_post
        (PostFilter_init (Some (- 5)) None None None None None None (Some 10) None None None)
        [(''ViewCount'', ''0''), (''PostTypeId'', ''1''), (''Score'', ''-3'')]
      = should_include_post
        (PostFilter_init (Some (- 5)) None None None None None None (Some 10) None None None)
        [(''PostTypeId'', ''1''), (''Score'', ''-3'')]"
proof -
  have h1: "numeric_or_absent [(''PostTypeId'', ''1''), (''Score'', ''-3'')] ''Score''"
    by code_simp
  have h2: "numeric_or_absent [(''PostTypeId'', ''1''), (''Score'', ''-3'')] ''ViewCount''"
    by code_simp
  have h3: "numeric_or_absent [(''PostTypeId'', ''1''), (''Score'', ''-3'')] ''AnswerCount''"
    by code_simp
  show ?thesis
    using h1 h2 h3 numeric_fields_do_not_raise [OF h1 h2 h3,
      of "PostFilter_init (Some (- 5)) None None None None None None (Some 10) None None None"]
    by simp
qed

text \<open>
  Claim C1 as stated fails: on a record whose \<^verbatim>\<open>Score\<close> is \<^verbatim>\<open>abc\<close> the filter raises
  \<^verbatim>\<open>ValueError\<close>, and the scan of a file that holds such a record raises it again and
  returns nothing, although a record that passes the filter follows.
\<close>

theorem malformed_score_counterexample:
  "should_include_post (PostFilter_init None None None None None None None None None None None)
     [(''PostTypeId'', ''1''), (''Score'', ''abc'')] = Inl ValueError
   \<and> extract_from_file
       (StreamingPostExtractor_init 1
          (PostFilter_init None None None None None None None None None None None))
       (Some [Inr (Event Start ''posts'' []),
              Inr (Event Start ''row'' [(''PostTypeId'', ''1''), (''Score'', ''abc'')]),
              Inr (Event End ''row'' [(''PostTypeId'', ''1''), (''Score'', ''abc'')]),
              Inr (Event Start ''row'' [(''PostTypeId'', ''1''), (''Score'', ''5'')]),
              Inr (Event End ''row'' [(''PostTypeId'', ''1''), (''Score'', ''5'')]),
              Inr (Event End ''posts'' [])]) = Inl ValueError"
  by code_simp

text \<open>
  Claim C10. A filter built without \<^verbatim>\<open>post_types\<close> allows the post types 1 and 2, and
  it rejects every record whose \<^verbatim>\<open>PostTypeId\<close> is another value, whatever the other
  constraints are (so also when none is set).
\<close>

theorem default_post_types:
  "post_types (PostFilter_init a_min_score a_max_score None a_tags_include a_tags_exclude
       a_min_answers a_has_accepted_answer a_min_views a_min_year a_max_year a_specific_years)
     = [''1'', ''2'']
   \<and> (attr_get post_attrs ''PostTypeId'' ''1'' \<notin> {''1'', ''2''} \<longrightarrow>
        should_include_post
          (PostFilter_init a_min_score a_max_score None a_tags_include a_tags_exclude
             a_min_answers a_has_accepted_answer a_min_views a_min_year a_max_year
             a_specific_years) post_attrs = Inr False)"
  by (simp add: PostFilter_init_def should_include_post_def)

theorem default_post_types_witness:
  "attr_get [(''PostTypeId'', ''3''), (''Score'', ''5'')] ''PostTypeId'' ''1'' = ''3''
   \<and> should_include_post (PostFilter_init None None None None None None None None None None None)
         [(''PostTypeId'', ''3''), (''Score'', ''5'')] = Inr False"
  using default_post_types [of None None None None None None None None None None
      "[(''PostTypeId'', ''3''), (''Score'', ''5'')]"]
  by (simp add: attr_get_def)

lemma blocks_ignore_years:
  "score_block (f\<lparr> min_year := a, max_year := b, specific_years := c \<rparr>) r = score_block f r"
  "views_block (f\<lparr> min_year := a, max_year := b, specific_years := c \<rparr>) t r = views_block f t r"
  "answers_block (f\<lparr> min_year := a, max_year := b, specific_years := c \<rparr>) t r = answers_block f t r"
  "accepted_block (f\<lparr> min_year := a, max_year := b, specific_years := c \<rparr>) t r = accepted_block f t r"
  "tags_block (f\<lparr> min_year := a, max_year := b, specific_years := c \<rparr>) t r = tags_block f t r"
  by (simp_all add: block_defs Let_def cong: if_cong sum.case_cong option.case_cong)

lemma by_year_total: "\<exists>b. should_include_post_by_year r mn mx sy = Inr b"
  using extract_year_total [of "attr_get r ''CreationDate'' ''''"]
  by (auto simp: should_include_post_by_year_def Let_def)

text \<open>
  Claim C8. A record without \<^verbatim>\<open>CreationDate\<close>, or with an empty one, passes the year
  block of \<^verbatim>\<open>should_include_post\<close> whatever the year constraints are: the verdict of
  the filter is the verdict of the same filter without year constraints. The year
  filter of parser.py accepts such a record too.
\<close>

theorem no_date_passes_year_filter:
  assumes "map_of post_attrs ''CreationDate'' = None \<or> map_of post_attrs ''CreationDate'' = Some ''''"
  shows "year_block flt post_attrs = Inr True
         \<and> should_include_post flt post_attrs =
             should_include_post (flt\<lparr> min_year := None, max_year := None, specific_years := {} \<rparr>)
               post_attrs
         \<and> should_include_post_by_year post_attrs mn mx sy = Inr True"
proof -
  from assms have date: "attr_get post_attrs ''CreationDate'' '''' = ''''"
    by (auto simp: attr_get_def)
  have y: "year_block f post_attrs = Inr True" for f
    by (simp add: year_block_def date)
  have "should_include_post flt post_attrs =
          should_include_post (flt\<lparr> min_year := None, max_year := None, specific_years := {} \<rparr>)
            post_attrs"
    by (simp add: should_include_post_def y blocks_ignore_years Let_def cong: if_cong)
  moreover have "should_include_post_by_year post_attrs mn mx sy = Inr True"
    by (simp add: should_include_post_by_year_def date)
  ultimately show ?thesis using y by simp
qed

theorem no_date_passes_year_filter_witness:
  "should_include_post
     (PostFilter_init None None None None None None None None (Some 2015) (Some 2018) None)
     [(''PostTypeId'', ''1''), (''Score'', ''3'')] = Inr True
   \<and> should_include_post
     (PostFilter_init None None None None None None None None None None (Some [2020]))
     [(''PostTypeId'', ''1''), (''Score'', ''3''), (''CreationDate'', '''')] = Inr True
   \<and> should_include_post_by_year [(''PostTypeId'', ''1''), (''Score'', ''3'')]
       (Some 2015) None None = Inr True"
  using no_date_passes_year_filter [of "[(''PostTypeId'', ''1''), (''Score'', ''3'')]"
           "PostFilter_init None None None None None None None None (Some 2015) (Some 2018) None"
           "Some 2015" None None]
    no_date_passes_year_filter [of "[(''PostTypeId'', ''1''), (''Score'', ''3''), (''CreationDate'', '''')]"
           "PostFilter_init None None None None None None None None None None (Some [2020])"
           None None None]
  by code_simp

section \<open>The scenario of five records\<close>

text \<open>
  Claim C3. Five records with post types 1, 2, 1, 1, 2 and scores 10, 1, -3, 7, 2, the
  filter \<^verbatim>\<open>min_score=0\<close>, \<^verbatim>\<open>post_types=['1']\<close> and the target 2: the filter accepts the
  first and the fourth record and rejects the others; the extraction returns the first
  and the fourth record in this order after counting four records, and the events of
  the fifth record are never asked for.
\<close>

theorem scenario_two_of_five:
  "map (should_include_post scenario_filter) scenario_rows
     = [Inr True, Inr False, Inr False, Inr True, Inr False]
   \<and> extract_from_file (StreamingPostExtractor_init 2 scenario_filter)
       (Some (document scenario_rows))
     = Inr (\<lparr> target_count = 2, post_filter = scenario_filter, extracted_count = 2,
              total_processed = 4,
              posts = [scenario_row ''1'' ''10'', scenario_row ''1'' ''7''] \<rparr>,
            [Inr (Event Start ''row'' (scenario_row ''2'' ''2'')),
             Inr (Event End ''row'' (scenario_row ''2'' ''2'')),
             Inr (Event End ''posts'' [])])"
  by code_simp

section \<open>Tags\<close>

lemma findall_tags_step:
  assumes "t \<noteq> []" "CHR ''>'' \<notin> set t"
  shows "findall_tags (''<'' @ t @ ''>'' @ rest) = t # findall_tags rest"
proof -
  have tw: "takeWhile (\<lambda>x. x \<noteq> CHR ''>'') (t @ CHR ''>'' # rest) = t"
    using assms(2) by (subst takeWhile_append2) auto
  have dw: "dropWhile (\<lambda>x. x \<noteq> CHR ''>'') (t @ CHR ''>'' # rest) = CHR ''>'' # rest"
    using assms(2) by (subst dropWhile_append2) auto
  show ?thesis
    using assms(1) by (simp add: findall_tags.simps(2) tw dw)
qed

lemma findall_tags_wellformed:
  assumes "\<forall>t \<in> set ts. t \<noteq> [] \<and> CHR ''>'' \<notin> set t"
  shows "findall_tags (concat (map (\<lambda>t. ''<'' @ t @ ''>'') ts)) = ts"
  using assms
proof (induction ts)
  case Nil
  then show ?case by simp
next
  case (Cons t ts)
  then have t: "t \<noteq> []" "CHR ''>'' \<notin> set t" by simp_all
  have "findall_tags (''<'' @ t @ ''>'' @ concat (map (\<lambda>t. ''<'' @ t @ ''>'') ts))
          = t # findall_tags (concat (map (\<lambda>t. ''<'' @ t @ ''>'') ts))"
    by (rule findall_tags_step [OF t])
  with Cons show ?case by simp
qed

text \<open>
  Claim C5. The empty string has no tags, \<^verbatim>\<open><a><b><c>\<close> has the tags a, b and c, and in
  general the string \<^verbatim>\<open><t1><t2>...<tN>\<close> built from tokens that are not empty and hold
  no \<^verbatim>\<open>>\<close> has exactly these tokens as its set of tags.
\<close>

theorem tags_of_wellformed_string:
  "PostFilter_extract_tags '''' = {}
   \<and> PostFilter_extract_tags ''<a><b><c>'' = {''a'', ''b'', ''c''}
   \<and> ((\<forall>t \<in> set ts. t \<noteq> [] \<and> CHR ''>'' \<notin> set t) \<longrightarrow>
        PostFilter_extract_tags (concat (map (\<lambda>t. ''<'' @ t @ ''>'') ts)) = set ts)"
proof (intro conjI impI)
  show "PostFilter_extract_tags '''' = {}"
    by (simp add: PostFilter_extract_tags_def)
next
  have "findall_tags (concat (map (\<lambda>t. ''<'' @ t @ ''>'') [''a'', ''b'', ''c'']))
          = [''a'', ''b'', ''c'']"
    by (rule findall_tags_wellformed) simp
  then show "PostFilter_extract_tags ''<a><b><c>'' = {''a'', ''b'', ''c''}"
    by (simp add: PostFilter_extract_tags_def)
next
  assume wf: "\<forall>t \<in> set ts. t \<noteq> [] \<and> CHR ''>'' \<notin> set t"
  show "PostFilter_extract_tags (concat (map (\<lambda>t. ''<'' @ t @ ''>'') ts)) = set ts"
  proof (cases ts)
    case Nil
    then show ?thesis by (simp add: PostFilter_extract_tags_def)
  next
    case (Cons t ts')
    then show ?thesis
      using findall_tags_wellformed [OF wf] by (simp add: PostFilter_extract_tags_def)
  qed
qed

theorem tags_of_wellformed_string_witness:
  "PostFilter_extract_tags ''<linear-algebra><c++><a<b>'' = {''linear-algebra'', ''c++'', ''a<b''}"
  using tags_of_wellformed_string [of "[''linear-algebra'', ''c++'', ''a<b'']"]
  by simp

section \<open>The scan: early exit and order\<close>

lemma rows_simps [simp]:
  "rows [] = []"
  "is_row ev \<Longrightarrow> rows (ev # evs) = attrib ev # rows evs"
  "\<not> is_row ev \<Longrightarrow> rows (ev # evs) = rows evs"
  by (simp_all add: rows_def)

lemma scanned_Nil [simp]: "scanned s [] = s"
  by (simp add: scanned_def)

lemma scanned_fields [simp]:
  "target_count (scanned s evs) = target_count s"
  "post_filter (scanned s evs) = post_filter s"
  "posts (scanned s evs) = posts s @ filter (accepts (post_filter s)) (rows evs)"
  "total_processed (scanned s evs) = total_processed s + int (length (rows evs))"
  "extracted_count (scanned s evs) =
     extracted_count s + int (length (filter (accepts (post_filter s)) (rows evs)))"
  by (simp_all add: scanned_def)

lemma scanned_other: "\<not> is_row ev \<Longrightarrow> scanned s (ev # evs) = scanned s evs"
  by (simp add: scanned_def)

lemma scanned_rejected:
  "is_row ev \<Longrightarrow> \<not> accepts (post_filter s) (attrib ev) \<Longrightarrow>
     scanned s (ev # evs) = scanned (count_row s) evs"
  by (simp add: scanned_def count_row_def)

lemma scanned_accepted:
  "is_row ev \<Longrightarrow> accepts (post_filter s) (attrib ev) \<Longrightarrow>
     scanned s (ev # evs) = scanned (keep_row (count_row s) (attrib ev)) evs"
  by (simp add: scanned_def count_row_def keep_row_def)

declare extract_loop.simps(3) [simp del]

lemma extract_loop_row:
  assumes "is_row ev"
  shows "extract_loop s (Inr ev # context) =
     (case should_include_post (post_filter s) (attrib ev) of
        Inl e \<Rightarrow> Inl e
      | Inr b \<Rightarrow>
          if b then
            (if extracted_count s + 1 \<ge> target_count s
             then Inr (keep_row (count_row s) (attrib ev), context)
             else extract_loop (keep_row (count_row s) (attrib ev)) context)
          else extract_loop (count_row s) context)"
  using assms by (simp add: extract_loop.simps(3) is_row_def count_row_def keep_row_def)

lemma extract_loop_other:
  assumes "\<not> is_row ev"
  shows "extract_loop s (Inr ev # context) = extract_loop s context"
  using assms by (auto simp: extract_loop.simps(3) is_row_def)

lemma extract_loop_below_target:
  assumes "list_all (evaluates (post_filter s)) (rows pre)"
    and "extracted_count s + int (length (filter (accepts (post_filter s)) (rows pre)))
           < target_count s"
  shows "extract_loop s (map Inr pre @ rest) = extract_loop (scanned s pre) rest"
  using assms
proof (induction pre arbitrary: s)
  case Nil
  then show ?case by simp
next
  case (Cons ev pre)
  show ?case
  proof (cases "is_row ev")
    case False
    with Cons show ?thesis
      by (simp add: extract_loop_other scanned_other)
  next
    case True
    with Cons.prems(1) obtain b where b: "should_include_post (post_filter s) (attrib ev) = Inr b"
      by (cases "should_include_post (post_filter s) (attrib ev)") (simp_all add: evaluates_def)
    show ?thesis
    proof (cases b)
      case False
      with b have rej: "\<not> accepts (post_filter s) (attrib ev)"
        by (simp add: accepts_def)
      have "extract_loop (count_row s) (map Inr pre @ rest)
              = extract_loop (scanned (count_row s) pre) rest"
        using Cons.prems True rej
        by (intro Cons.IH) (simp_all add: count_row_def)
      then show ?thesis
        using True b False rej by (simp add: extract_loop_row scanned_rejected)
    next
      case yes: True
      with b have acc: "accepts (post_filter s) (attrib ev)"
        by (simp add: accepts_def)
      have below: "\<not> extracted_count s + 1 \<ge> target_count s"
        using Cons.prems(2) True acc by simp
      have "extract_loop (keep_row (count_row s) (attrib ev)) (map Inr pre @ rest)
              = extract_loop (scanned (keep_row (count_row s) (attrib ev)) pre) rest"
        using Cons.prems True acc
        by (intro Cons.IH) (simp_all add: count_row_def keep_row_def)
      then show ?thesis
        using True b yes acc below by (simp add: extract_loop_row scanned_accepted)
    qed
  qed
qed

lemma extract_loop_reaches_target:
  assumes "is_row ev" "accepts (post_filter s) (attrib ev)"
    and "extracted_count s + 1 \<ge> target_count s"
  shows "extract_loop s (Inr ev # rest) = Inr (scanned s [ev], rest)"
  using assms by (simp add: extract_loop_row accepts_def scanned_accepted)

lemma extract_loop_prefix:
  assumes "extract_loop s items = Inr (s', rest)"
  shows "\<exists>pre. items = map Inr pre @ rest \<and> s' = scanned s pre"
  using assms
proof (induction items arbitrary: s)
  case Nil
  then show ?case by simp
next
  case (Cons item items)
  then obtain ev where item: "item = Inr ev"
    by (cases item) simp_all
  have step: "\<exists>pre. Inr ev # items = map Inr pre @ rest \<and> s' = scanned s pre"
    if "extract_loop t items = Inr (s', rest)" and "\<And>pre. scanned s (ev # pre) = scanned t pre" for t
  proof -
    from Cons.IH [OF that(1)] obtain pre where "items = map Inr pre @ rest" "s' = scanned t pre"
      by blast
    then have "Inr ev # items = map Inr (ev # pre) @ rest \<and> s' = scanned s (ev # pre)"
      by (simp add: that(2))
    then show ?thesis by blast
  qed
  show ?case
  proof (cases "is_row ev")
    case False
    with Cons.prems item show ?thesis
      by (auto simp: extract_loop_other scanned_other intro!: step)
  next
    case True
    from Cons.prems item True obtain b where b: "should_include_post (post_filter s) (attrib ev) = Inr b"
      by (cases "should_include_post (post_filter s) (attrib ev)") (simp_all add: extract_loop_row)
    show ?thesis
    proof (cases b)
      case False
      with b have rej: "\<not> accepts (post_filter s) (attrib ev)"
        by (simp add: accepts_def)
      from Cons.prems item True b False
      have "extract_loop (count_row s) items = Inr (s', rest)"
        by (simp add: extract_loop_row)
      then show ?thesis
        unfolding item by (rule step) (simp add: scanned_rejected True rej)
    next
      case yes: True
      with b have acc: "accepts (post_filter s) (attrib ev)"
        by (simp add: accepts_def)
      show ?thesis
      proof (cases "extracted_count s + 1 \<ge> target_count s")
        case stop: True
        from Cons.prems item True b yes stop
        have "s' = keep_row (count_row s) (attrib ev)" "rest = items"
          by (simp_all add: extract_loop_row)
        then have "item # items = map Inr [ev] @ rest \<and> s' = scanned s [ev]"
          by (simp add: item scanned_accepted True acc)
        then show ?thesis by blast
      next
        case False
        from Cons.prems item True b yes False
        have "extract_loop (keep_row (count_row s) (attrib ev)) items = Inr (s', rest)"
          by (simp add: extract_loop_row)
        then show ?thesis
          unfolding item by (rule step) (simp add: scanned_accepted True acc)
      qed
    qed
  qed
qed

lemma extract_loop_returns:
  assumes "list_all (evaluates (post_filter s)) (rows evs)"
  shows "\<not> isl (extract_loop s (map Inr evs))"
  using assms
proof (induction evs arbitrary: s)
  case Nil
  then show ?case by simp
next
  case (Cons ev evs)
  show ?case
  proof (cases "is_row ev")
    case False
    with Cons show ?thesis by (simp add: extract_loop_other)
  next
    case True
    with Cons.prems obtain b where b: "should_include_post (post_filter s) (attrib ev) = Inr b"
      by (cases "should_include_post (post_filter s) (attrib ev)") (simp_all add: evaluates_def)
    have "\<not> isl (extract_loop (count_row s) (map Inr evs))"
      "\<not> isl (extract_loop (keep_row (count_row s) (attrib ev)) (map Inr evs))"
      using Cons.prems True by (auto intro!: Cons.IH simp: count_row_def keep_row_def)
    then show ?thesis
      using True b by (simp add: extract_loop_row)
  qed
qed

declare streaming_loop.simps(3) [simp del]

lemma by_year_cases:
  "should_include_post_by_year r mn mx sy = Inr (in_years mn mx sy r)"
  using by_year_total [of r mn mx sy] by (auto simp: in_years_def)

lemma streaming_loop_row:
  assumes "is_row ev"
  shows "streaming_loop k mn mx sy ps c (Inr ev # context) =
     (if c < k then
        (if in_years mn mx sy (attrib ev) then
           (if c + 1 \<ge> k then Inr (ps @ [attrib ev], context)
            else streaming_loop k mn mx sy (ps @ [attrib ev]) (c + 1) context)
         else streaming_loop k mn mx sy ps c context)
      else streaming_loop k mn mx sy ps c context)"
  using assms by (simp add: streaming_loop.simps(3) is_row_def by_year_cases)

lemma streaming_loop_other:
  assumes "\<not> is_row ev"
  shows "streaming_loop k mn mx sy ps c (Inr ev # context) = streaming_loop k mn mx sy ps c context"
  using assms by (auto simp: streaming_loop.simps(3) is_row_def)

lemma streaming_loop_below_target:
  assumes "c + int (length (filter (in_years mn mx sy) (rows pre))) < k"
  shows "streaming_loop k mn mx sy ps c (map Inr pre @ rest) =
           streaming_loop k mn mx sy (ps @ filter (in_years mn mx sy) (rows pre))
             (c + int (length (filter (in_years mn mx sy) (rows pre)))) rest"
  using assms
proof (induction pre arbitrary: ps c)
  case Nil
  then show ?case by simp
next
  case (Cons ev pre)
  show ?case
  proof (cases "is_row ev")
    case False
    with Cons show ?thesis by (simp add: streaming_loop_other)
  next
    case True
    show ?thesis
    proof (cases "in_years mn mx sy (attrib ev)")
      case False
      with Cons True show ?thesis
        by (simp add: streaming_loop_row)
    next
      case yes: True
      have "streaming_loop k mn mx sy (ps @ [attrib ev]) (c + 1) (map Inr pre @ rest) =
              streaming_loop k mn mx sy ((ps @ [attrib ev]) @ filter (in_years mn mx sy) (rows pre))
                (c + 1 + int (length (filter (in_years mn mx sy) (rows pre)))) rest"
        using Cons.prems True yes by (intro Cons.IH) simp
      moreover have "c + 1 + int (length (filter (in_years mn mx sy) (rows pre)))
          = c + int (length (filter (in_years mn mx sy) (rows (ev # pre))))"
        using True yes by simp
      moreover have "(ps @ [attrib ev]) @ filter (in_years mn mx sy) (rows pre)
          = ps @ filter (in_years mn mx sy) (rows (ev # pre))"
        using True yes by simp
      moreover have "streaming_loop k mn mx sy ps c (map Inr (ev # pre) @ rest)
          = streaming_loop k mn mx sy (ps @ [attrib ev]) (c + 1) (map Inr pre @ rest)"
        using Cons.prems True yes by (simp add: streaming_loop_row)
      ultimately show ?thesis by simp
    qed
  qed
qed

lemma streaming_loop_reaches_target:
  assumes "is_row ev" "in_years mn mx sy (attrib ev)" "c < k" "c + 1 \<ge> k"
  shows "streaming_loop k mn mx sy ps c (Inr ev # rest) = Inr (ps @ [attrib ev], rest)"
  using assms by (simp add: streaming_loop_row)

lemma streaming_loop_prefix:
  assumes "streaming_loop k mn mx sy ps c items = Inr (ps', rest)"
  shows "\<exists>pre. items = map Inr pre @ rest
           \<and> ps' = ps @ (if c < k then filter (in_years mn mx sy) (rows pre) else [])"
  using assms
proof (induction items arbitrary: ps c)
  case Nil
  then show ?case by simp
next
  case (Cons item items)
  then obtain ev where item: "item = Inr ev"
    by (cases item) simp_all
  have step: "\<exists>pre. Inr ev # items = map Inr pre @ rest
                \<and> ps' = ps @ (if c < k then filter (in_years mn mx sy) (rows pre) else [])"
    if "streaming_loop k mn mx sy qs d items = Inr (ps', rest)"
      and "\<And>pre. qs @ (if d < k then filter (in_years mn mx sy) (rows pre) else [])
                 = ps @ (if c < k then filter (in_years mn mx sy) (rows (ev # pre)) else [])"
    for qs d
  proof -
    from Cons.IH [OF that(1)] obtain pre where
      "items = map Inr pre @ rest"
      "ps' = qs @ (if d < k then filter (in_years mn mx sy) (rows pre) else [])"
      by blast
    then have "Inr ev # items = map Inr (ev # pre) @ rest
        \<and> ps' = ps @ (if c < k then filter (in_years mn mx sy) (rows (ev # pre)) else [])"
      by (simp add: that(2))
    then show ?thesis by blast
  qed
  show ?case
  proof (cases "is_row ev")
    case False
    with Cons.prems item show ?thesis
      unfolding item by (intro step [of ps c]) (simp_all add: streaming_loop_other)
  next
    case True
    show ?thesis
    proof (cases "c < k \<and> in_years mn mx sy (attrib ev)")
      case False
      with Cons.prems item True
      have "streaming_loop k mn mx sy ps c items = Inr (ps', rest)"
        by (auto simp: streaming_loop_row split: if_splits)
      then show ?thesis
        unfolding item using False True by (intro step [of ps c]) auto
    next
      case yes: True
      show ?thesis
      proof (cases "c + 1 \<ge> k")
        case stop: True
        from Cons.prems item True yes stop
        have "ps' = ps @ [attrib ev]" "rest = items"
          by (simp_all add: streaming_loop_row)
        then have "item # items = map Inr [ev] @ rest
            \<and> ps' = ps @ (if c < k then filter (in_years mn mx sy) (rows [ev]) else [])"
          using yes True by (simp add: item)
        then show ?thesis by blast
      next
        case False
        from Cons.prems item True yes False
        have "streaming_loop k mn mx sy (ps @ [attrib ev]) (c + 1) items = Inr (ps', rest)"
          by (simp add: streaming_loop_row)
        then show ?thesis
          unfolding item using False True yes by (intro step [of "ps @ [attrib ev]" "c + 1"]) auto
      qed
    qed
  qed
qed

lemma streaming_loop_returns:
  "\<not> isl (streaming_loop k mn mx sy ps c (map Inr evs))"
proof (induction evs arbitrary: ps c)
  case Nil
  then show ?case by simp
next
  case (Cons ev evs)
  then show ?case
    by (cases "is_row ev") (simp_all add: streaming_loop_row streaming_loop_other)
qed

lemma init_fields [simp]:
  "target_count (StreamingPostExtractor_init k flt) = k"
  "post_filter (StreamingPostExtractor_init k flt) = flt"
  "extracted_count (StreamingPostExtractor_init k flt) = 0"
  "total_processed (StreamingPostExtractor_init k flt) = 0"
  "posts (StreamingPostExtractor_init k flt) = []"
  by (simp_all add: StreamingPostExtractor_init_def)

lemma extract_loop_to_target:
  assumes "is_row ev" "accepts (post_filter s) (attrib ev)"
    and "list_all (evaluates (post_filter s)) (rows pre)"
    and "extracted_count s + int (length (filter (accepts (post_filter s)) (rows pre))) + 1
           = target_count s"
  shows "extract_loop s (map Inr pre @ Inr ev # rest) = Inr (scanned s (pre @ [ev]), rest)"
proof -
  have "extract_loop s (map Inr pre @ Inr ev # rest) = extract_loop (scanned s pre) (Inr ev # rest)"
    using assms(3,4) by (intro extract_loop_below_target) simp_all
  also have "\<dots> = Inr (scanned (scanned s pre) [ev], rest)"
    using assms by (intro extract_loop_reaches_target) simp_all
  also have "scanned (scanned s pre) [ev] = scanned s (pre @ [ev])"
    by (simp add: scanned_def rows_def)
  finally show ?thesis .
qed

lemma streaming_loop_to_target:
  assumes "is_row ev" "in_years mn mx sy (attrib ev)"
    and "c + int (length (filter (in_years mn mx sy) (rows pre))) + 1 = k"
  shows "streaming_loop k mn mx sy ps c (map Inr pre @ Inr ev # rest)
           = Inr (ps @ filter (in_years mn mx sy) (rows pre) @ [attrib ev], rest)"
proof -
  have "streaming_loop k mn mx sy ps c (map Inr pre @ Inr ev # rest)
          = streaming_loop k mn mx sy (ps @ filter (in_years mn mx sy) (rows pre))
              (c + int (length (filter (in_years mn mx sy) (rows pre)))) (Inr ev # rest)"
    using assms(3) by (intro streaming_loop_below_target) simp
  also have "\<dots> = Inr ((ps @ filter (in_years mn mx sy) (rows pre)) @ [attrib ev], rest)"
    using assms by (intro streaming_loop_reaches_target) simp_all
  finally show ?thesis by simp
qed

text \<open>
  Claim C2, as amended. Let the target \<open>K\<close> be at least 1 (\<^verbatim>\<open>validate_arguments\<close> rejects
  any other), let the record of the event \<open>ev\<close> be the \<open>K\<close>-th record that the filter
  accepts, \<open>pre\<close> the events before it and \<open>rest\<close> whatever the iterator would give after
  it, and let the filter of parser2.py raise on no record of \<open>pre\<close> (the year filter of
  parser.py never raises). Then the extraction returns the \<open>K\<close> accepted records of
  \<open>pre\<close> and \<open>ev\<close>, has counted exactly the records up to and including the one of \<open>ev\<close>,
  and leaves \<open>rest\<close> unread, whatever it holds.
\<close>

theorem stops_at_target:
  "(1 \<le> K \<and> is_row ev \<and> accepts flt (attrib ev) \<and> list_all (evaluates flt) (rows pre)
      \<and> int (length (filter (accepts flt) (rows pre))) = K - 1 \<longrightarrow>
    extract_from_file (StreamingPostExtractor_init K flt)
        (Some (Inr root # map Inr pre @ Inr ev # rest))
      = Inr (\<lparr> target_count = K, post_filter = flt, extracted_count = K,
               total_processed = int (length (rows pre)) + 1,
               posts = filter (accepts flt) (rows pre) @ [attrib ev] \<rparr>, rest))
   \<and> (1 \<le> K \<and> is_row ev \<and> in_years mn mx sy (attrib ev)
      \<and> int (length (filter (in_years mn mx sy) (rows pre))) = K - 1 \<longrightarrow>
    extract_posts_streaming (Some (Inr root # map Inr pre @ Inr ev # rest)) K mn mx sy
      = Inr (filter (in_years mn mx sy) (rows pre) @ [attrib ev], rest))"
proof (intro conjI impI)
  assume h: "1 \<le> K \<and> is_row ev \<and> accepts flt (attrib ev) \<and> list_all (evaluates flt) (rows pre)
      \<and> int (length (filter (accepts flt) (rows pre))) = K - 1"
  let ?s = "StreamingPostExtractor_init K flt"
  have "extract_loop ?s (map Inr pre @ Inr ev # rest) = Inr (scanned ?s (pre @ [ev]), rest)"
    using h by (intro extract_loop_to_target) simp_all
  moreover have "scanned ?s (pre @ [ev])
      = \<lparr> target_count = K, post_filter = flt, extracted_count = K,
          total_processed = int (length (rows pre)) + 1,
          posts = filter (accepts flt) (rows pre) @ [attrib ev] \<rparr>"
    using h by (simp add: scanned_def StreamingPostExtractor_init_def rows_def)
  ultimately show "extract_from_file ?s (Some (Inr root # map Inr pre @ Inr ev # rest))
      = Inr (\<lparr> target_count = K, post_filter = flt, extracted_count = K,
               total_processed = int (length (rows pre)) + 1,
               posts = filter (accepts flt) (rows pre) @ [attrib ev] \<rparr>, rest)"
    by (simp add: extract_from_file_def)
next
  assume h: "1 \<le> K \<and> is_row ev \<and> in_years mn mx sy (attrib ev)
      \<and> int (length (filter (in_years mn mx sy) (rows pre))) = K - 1"
  have "streaming_loop K mn mx sy [] 0 (map Inr pre @ Inr ev # rest)
          = Inr ([] @ filter (in_years mn mx sy) (rows pre) @ [attrib ev], rest)"
    using h by (intro streaming_loop_to_target) simp_all
  then show "extract_posts_streaming (Some (Inr root # map Inr pre @ Inr ev # rest)) K mn mx sy
      = Inr (filter (in_years mn mx sy) (rows pre) @ [attrib ev], rest)"
    by (simp add: extract_posts_streaming_def exit_on_exception_def)
qed

theorem stops_at_target_witness:
  "extract_from_file (StreamingPostExtractor_init 2 scenario_filter)
     (Some (Inr (Event Start ''posts'' [])
        # map Inr [Event End ''row'' (scenario_row ''1'' ''10''),
                   Event End ''row'' (scenario_row ''2'' ''1''),
                   Event End ''row'' (scenario_row ''1'' ''-3''),
                   Event Start ''row'' (scenario_row ''1'' ''7'')]
        @ Inr (Event End ''row'' (scenario_row ''1'' ''7'')) # [Inl ParseError]))
     = Inr (\<lparr> target_count = 2, post_filter = scenario_filter, extracted_count = 2,
              total_processed = 4,
              posts = [scenario_row ''1'' ''10'', scenario_row ''1'' ''7''] \<rparr>, [Inl ParseError])
   \<and> extract_posts_streaming
       (Some (Inr (Event Start ''posts'' [])
          # map Inr [Event End ''row'' [(''CreationDate'', ''2016-03-01T00:00:00.000'')],
                     Event End ''row'' [(''CreationDate'', ''2010-03-01T00:00:00.000'')]]
          @ Inr (Event End ''row'' [(''CreationDate'', ''2017-03-01T00:00:00.000'')])
          # [Inl ParseError]))
       2 (Some 2015) None None
     = Inr ([[(''CreationDate'', ''2016-03-01T00:00:00.000'')],
             [(''CreationDate'', ''2017-03-01T00:00:00.000'')]], [Inl ParseError])"
proof -
  let ?pre = "[Event End ''row'' (scenario_row ''1'' ''10''),
               Event End ''row'' (scenario_row ''2'' ''1''),
               Event End ''row'' (scenario_row ''1'' ''-3''),
               Event Start ''row'' (scenario_row ''1'' ''7'')]"
  let ?ev = "Event End ''row'' (scenario_row ''1'' ''7'')"
  let ?pre' = "[Event End ''row'' [(''CreationDate'', ''2016-03-01T00:00:00.000'')],
                Event End ''row'' [(''CreationDate'', ''2010-03-01T00:00:00.000'')]]"
  let ?ev' = "Event End ''row'' [(''CreationDate'', ''2017-03-01T00:00:00.000'')]"
  have h: "1 \<le> (2::int) \<and> is_row ?ev \<and> accepts scenario_filter (attrib ?ev)
      \<and> list_all (evaluates scenario_filter) (rows ?pre)
      \<and> int (length (filter (accepts scenario_filter) (rows ?pre))) = 2 - 1"
    by code_simp
  have h': "1 \<le> (2::int) \<and> is_row ?ev' \<and> in_years (Some 2015) None None (attrib ?ev')
      \<and> int (length (filter (in_years (Some 2015) None None) (rows ?pre'))) = 2 - 1"
    by code_simp
  have v: "int (length (rows ?pre)) + 1 = 4"
    "filter (accepts scenario_filter) (rows ?pre) @ [attrib ?ev]
       = [scenario_row ''1'' ''10'', scenario_row ''1'' ''7'']"
    by code_simp+
  have v': "filter (in_years (Some 2015) None None) (rows ?pre') @ [attrib ?ev']
       = [[(''CreationDate'', ''2016-03-01T00:00:00.000'')],
          [(''CreationDate'', ''2017-03-01T00:00:00.000'')]]"
    by code_simp
  from h stops_at_target [where K = 2 and ev = ?ev and flt = scenario_filter and pre = ?pre
      and root = "Event Start ''posts'' []" and rest = "[Inl ParseError]"]
  have c: "extract_from_file (StreamingPostExtractor_init 2 scenario_filter)
        (Some (Inr (Event Start ''posts'' []) # map Inr ?pre @ Inr ?ev # [Inl ParseError]))
      = Inr (\<lparr> target_count = 2, post_filter = scenario_filter, extracted_count = 2,
               total_processed = int (length (rows ?pre)) + 1,
               posts = filter (accepts scenario_filter) (rows ?pre) @ [attrib ?ev] \<rparr>,
             [Inl ParseError])"
    by blast
  from h' stops_at_target [where K = 2 and ev = ?ev' and mn = "Some 2015" and mx = None
      and sy = None and pre = ?pre' and root = "Event Start ''posts'' []"
      and rest = "[Inl ParseError]"]
  have c': "extract_posts_streaming
        (Some (Inr (Event Start ''posts'' []) # map Inr ?pre' @ Inr ?ev' # [Inl ParseError]))
        2 (Some 2015) None None
      = Inr (filter (in_years (Some 2015) None None) (rows ?pre') @ [attrib ?ev'],
             [Inl ParseError])"
    by blast
  show ?thesis
    using c c' unfolding v v' by (intro conjI)
qed

text \<open>
  Claim C2 as stated fails in two ways. With the target 0 and two records that the
  filter accepts, parser2.py does not stop at once: it reads the first record and keeps
  it, one more than the target; parser.py keeps nothing and reads the stream to its
  end. And with the target 1, when a record whose \<^verbatim>\<open>Score\<close> is not a number stands before
  the first record that the filter accepts, the scan of parser2.py raises
  \<^verbatim>\<open>ValueError\<close> at it and never processes the accepted record.
\<close>

theorem stops_at_target_counterexample:
  "extract_from_file
       (StreamingPostExtractor_init 0
          (PostFilter_init None None None None None None None None None None None))
       (Some (document [scenario_row ''1'' ''10'', scenario_row ''1'' ''7'']))
     = Inr (\<lparr> target_count = 0,
              post_filter = PostFilter_init None None None None None None None None None None None,
              extracted_count = 1, total_processed = 1,
              posts = [scenario_row ''1'' ''10''] \<rparr>,
            [Inr (Event Start ''row'' (scenario_row ''1'' ''7'')),
             Inr (Event End ''row'' (scenario_row ''1'' ''7'')),
             Inr (Event End ''posts'' [])])
   \<and> extract_posts_streaming
       (Some (document [scenario_row ''1'' ''10'', scenario_row ''1'' ''7''])) 0 None None None
     = Inr ([], [])
   \<and> should_include_post
       (PostFilter_init None None None None None None None None None None None)
       (scenario_row ''1'' ''7'') = Inr True
   \<and> extract_from_file
       (StreamingPostExtractor_init 1
          (PostFilter_init None None None None None None None None None None None))
       (Some (document [scenario_row ''1'' ''abc'', scenario_row ''1'' ''7'']))
     = Inl ValueError"
  by code_simp

lemma take_first_accepted:
  assumes "(1::int) < n"
  shows "take (nat n) (x # xs) = x # take (nat (n - 1)) xs"
proof -
  from assms have "nat n = Suc (nat (n - 1))" by simp
  then have "take (nat n) (x # xs) = take (Suc (nat (n - 1))) (x # xs)" by (rule arg_cong)
  then show ?thesis by (simp only: take_Suc_Cons)
qed

lemma extract_loop_take:
  assumes "extract_loop s (map Inr evs) = Inr (s', rest)"
  shows "posts s' = posts s
           @ take (nat (max 1 (target_count s - extracted_count s)))
               (filter (accepts (post_filter s)) (rows evs))"
  using assms
proof (induction evs arbitrary: s)
  case Nil
  then show ?case by simp
next
  case (Cons ev evs)
  show ?case
  proof (cases "is_row ev")
    case False
    with Cons.prems have "extract_loop s (map Inr evs) = Inr (s', rest)"
      by (simp add: extract_loop_other)
    from Cons.IH [OF this] False show ?thesis by simp
  next
    case True
    from Cons.prems True obtain b where b: "should_include_post (post_filter s) (attrib ev) = Inr b"
      by (cases "should_include_post (post_filter s) (attrib ev)") (simp_all add: extract_loop_row)
    show ?thesis
    proof (cases b)
      case False
      with b have rej: "\<not> accepts (post_filter s) (attrib ev)"
        by (simp add: accepts_def)
      from Cons.prems True b False
      have "extract_loop (count_row s) (map Inr evs) = Inr (s', rest)"
        by (simp add: extract_loop_row)
      from Cons.IH [OF this] True rej show ?thesis
        by (simp add: count_row_def)
    next
      case yes: True
      with b have acc: "accepts (post_filter s) (attrib ev)"
        by (simp add: accepts_def)
      show ?thesis
      proof (cases "extracted_count s + 1 \<ge> target_count s")
        case stop: True
        from Cons.prems True b yes stop
        have "s' = keep_row (count_row s) (attrib ev)"
          by (simp add: extract_loop_row)
        moreover from stop have "nat (max 1 (target_count s - extracted_count s)) = Suc 0"
          by simp
        ultimately show ?thesis
          using True acc by (simp add: keep_row_def count_row_def)
      next
        case False
        from Cons.prems True b yes False
        have "extract_loop (keep_row (count_row s) (attrib ev)) (map Inr evs) = Inr (s', rest)"
          by (simp add: extract_loop_row)
        from Cons.IH [OF this]
        have "posts s' = (posts s @ [attrib ev])
                @ take (nat (max 1 (target_count s - extracted_count s - 1)))
                    (filter (accepts (post_filter s)) (rows evs))"
          by (simp add: keep_row_def count_row_def algebra_simps)
        moreover from False have "1 < target_count s - extracted_count s" by simp
        ultimately show ?thesis
          using True acc by (simp add: take_first_accepted)
      qed
    qed
  qed
qed

lemma streaming_loop_take:
  assumes "streaming_loop k mn mx sy ps c (map Inr evs) = Inr (ps', rest)"
  shows "ps' = ps @ take (nat (k - c)) (filter (in_years mn mx sy) (rows evs))"
  using assms
proof (induction evs arbitrary: ps c)
  case Nil
  then show ?case by simp
next
  case (Cons ev evs)
  show ?case
  proof (cases "is_row ev")
    case False
    with Cons.prems have "streaming_loop k mn mx sy ps c (map Inr evs) = Inr (ps', rest)"
      by (simp add: streaming_loop_other)
    from Cons.IH [OF this] False show ?thesis by simp
  next
    case True
    show ?thesis
    proof (cases "c < k")
      case False
      with Cons.prems True
      have "streaming_loop k mn mx sy ps c (map Inr evs) = Inr (ps', rest)"
        by (simp add: streaming_loop_row)
      from Cons.IH [OF this] False show ?thesis by simp
    next
      case below: True
      show ?thesis
      proof (cases "in_years mn mx sy (attrib ev)")
        case False
        with Cons.prems True below
        have "streaming_loop k mn mx sy ps c (map Inr evs) = Inr (ps', rest)"
          by (simp add: streaming_loop_row)
        from Cons.IH [OF this] True False show ?thesis by simp
      next
        case yes: True
        from below have k: "nat (k - c) = Suc (nat (k - (c + 1)))" by simp
        show ?thesis
        proof (cases "c + 1 \<ge> k")
          case stop: True
          from Cons.prems True below yes stop have "ps' = ps @ [attrib ev]"
            by (simp add: streaming_loop_row)
          moreover from stop below have "nat (k - c) = Suc 0" by simp
          ultimately show ?thesis
            using True yes by simp
        next
          case False
          from Cons.prems True below yes False
          have "streaming_loop k mn mx sy (ps @ [attrib ev]) (c + 1) (map Inr evs) = Inr (ps', rest)"
            by (simp add: streaming_loop_row)
          from Cons.IH [OF this] show ?thesis
            using True yes by (simp add: k)
        qed
      qed
    qed
  qed
qed

text \<open>
  Claim C6. The list that a loop of the extraction ends in is the list it started from
  followed by the first accepted records of the stream, in stream order, as many as
  were still missing for the target (in parser2.py at least one, since the target is
  tested only after an append): records are only appended, and what was in the list
  stays where it was. So the extraction from a file returns the first \<open>K\<close> accepted
  records of the stream in the order of the stream, or all of them when there are
  fewer. The events consumed are a prefix \<open>pre\<close> of the stream, and the list holds
  exactly the accepted records of \<open>pre\<close>. The extraction does return a list on every
  well-formed stream on whose records the filter does not raise.
\<close>

theorem accepted_in_stream_order:
  "(extract_loop s items = Inr (s', rest) \<longrightarrow>
      (\<exists>pre. items = map Inr pre @ rest
         \<and> posts s' = posts s @ filter (accepts (post_filter s)) (rows pre)))
   \<and> (extract_from_file (StreamingPostExtractor_init K flt) (Some items) = Inr (s', rest) \<longrightarrow>
      (\<exists>root pre. items = Inr root # map Inr pre @ rest
         \<and> posts s' = filter (accepts flt) (rows pre)))
   \<and> (streaming_loop K mn mx sy ps c items = Inr (ps', rest) \<longrightarrow>
      (\<exists>pre. items = map Inr pre @ rest
         \<and> ps' = ps @ (if c < K then filter (in_years mn mx sy) (rows pre) else [])))
   \<and> (extract_posts_streaming (Some items) K mn mx sy = Inr (ps', rest) \<longrightarrow>
      (\<exists>root pre. items = Inr root # map Inr pre @ rest
         \<and> ps' = (if 0 < K then filter (in_years mn mx sy) (rows pre) else [])))
   \<and> (list_all (evaluates flt) (rows evs) \<longrightarrow>
        \<not> isl (extract_from_file (StreamingPostExtractor_init K flt)
                 (Some (Inr root # map Inr evs))))
   \<and> \<not> isl (extract_posts_streaming (Some (Inr root # map Inr evs)) K mn mx sy)
   \<and> (extract_loop s (map Inr evs) = Inr (s', rest) \<longrightarrow>
        posts s' = posts s
          @ take (nat (max 1 (target_count s - extracted_count s)))
              (filter (accepts (post_filter s)) (rows evs)))
   \<and> (extract_from_file (StreamingPostExtractor_init K flt) (Some (Inr root # map Inr evs))
          = Inr (s', rest) \<longrightarrow>
        posts s' = take (nat (max 1 K)) (filter (accepts flt) (rows evs)))
   \<and> (streaming_loop K mn mx sy ps c (map Inr evs) = Inr (ps', rest) \<longrightarrow>
        ps' = ps @ take (nat (K - c)) (filter (in_years mn mx sy) (rows evs)))
   \<and> (extract_posts_streaming (Some (Inr root # map Inr evs)) K mn mx sy = Inr (ps', rest) \<longrightarrow>
        ps' = take (nat K) (filter (in_years mn mx sy) (rows evs)))"
proof (intro conjI impI)
  assume "extract_loop s items = Inr (s', rest)"
  from extract_loop_prefix [OF this]
  show "\<exists>pre. items = map Inr pre @ rest
          \<and> posts s' = posts s @ filter (accepts (post_filter s)) (rows pre)"
    by auto
next
  assume h: "extract_from_file (StreamingPostExtractor_init K flt) (Some items) = Inr (s', rest)"
  then obtain root tl where items: "items = Inr root # tl"
    and loop: "extract_loop (StreamingPostExtractor_init K flt) tl = Inr (s', rest)"
    by (auto simp: extract_from_file_def split: list.splits sum.splits)
  from extract_loop_prefix [OF loop] items
  show "\<exists>root pre. items = Inr root # map Inr pre @ rest
          \<and> posts s' = filter (accepts flt) (rows pre)"
    by auto
next
  assume "streaming_loop K mn mx sy ps c items = Inr (ps', rest)"
  from streaming_loop_prefix [OF this]
  show "\<exists>pre. items = map Inr pre @ rest
          \<and> ps' = ps @ (if c < K then filter (in_years mn mx sy) (rows pre) else [])" .
next
  assume h: "extract_posts_streaming (Some items) K mn mx sy = Inr (ps', rest)"
  then obtain root tl where items: "items = Inr root # tl"
    and loop: "streaming_loop K mn mx sy [] 0 tl = Inr (ps', rest)"
    by (auto simp: extract_posts_streaming_def exit_on_exception_def
             split: list.splits sum.splits pyerr.splits)
  from streaming_loop_prefix [OF loop] items
  show "\<exists>root pre. items = Inr root # map Inr pre @ rest
          \<and> ps' = (if 0 < K then filter (in_years mn mx sy) (rows pre) else [])"
    by auto
next
  assume "list_all (evaluates flt) (rows evs)"
  then have "\<not> isl (extract_loop (StreamingPostExtractor_init K flt) (map Inr evs))"
    by (intro extract_loop_returns) simp
  then show "\<not> isl (extract_from_file (StreamingPostExtractor_init K flt)
                 (Some (Inr root # map Inr evs)))"
    by (simp add: extract_from_file_def)
next
  have "\<not> isl (streaming_loop K mn mx sy [] 0 (map Inr evs))"
    by (rule streaming_loop_returns)
  then show "\<not> isl (extract_posts_streaming (Some (Inr root # map Inr evs)) K mn mx sy)"
    by (cases "streaming_loop K mn mx sy [] 0 (map Inr evs)")
       (simp_all add: extract_posts_streaming_def exit_on_exception_def)
next
  assume "extract_loop s (map Inr evs) = Inr (s', rest)"
  then show "posts s' = posts s
          @ take (nat (max 1 (target_count s - extracted_count s)))
              (filter (accepts (post_filter s)) (rows evs))"
    by (rule extract_loop_take)
next
  assume "extract_from_file (StreamingPostExtractor_init K flt) (Some (Inr root # map Inr evs))
          = Inr (s', rest)"
  then have "extract_loop (StreamingPostExtractor_init K flt) (map Inr evs) = Inr (s', rest)"
    by (simp add: extract_from_file_def)
  from extract_loop_take [OF this]
  show "posts s' = take (nat (max 1 K)) (filter (accepts flt) (rows evs))"
    by simp
next
  assume "streaming_loop K mn mx sy ps c (map Inr evs) = Inr (ps', rest)"
  then show "ps' = ps @ take (nat (K - c)) (filter (in_years mn mx sy) (rows evs))"
    by (rule streaming_loop_take)
next
  assume "extract_posts_streaming (Some (Inr root # map Inr evs)) K mn mx sy = Inr (ps', rest)"
  then have "streaming_loop K mn mx sy [] 0 (map Inr evs) = Inr (ps', rest)"
    by (cases "streaming_loop K mn mx sy [] 0 (map Inr evs)")
       (auto simp: extract_posts_streaming_def exit_on_exception_def split: pyerr.splits)
  from streaming_loop_take [OF this]
  show "ps' = take (nat K) (filter (in_years mn mx sy) (rows evs))"
    by simp
qed

theorem accepted_in_stream_order_witness:
  "(\<exists>pre. ([Inr (Event End ''row'' (scenario_row ''1'' ''-3'')),
           Inr (Event End ''row'' (scenario_row ''1'' ''7'')),
           Inr (Event End ''row'' (scenario_row ''1'' ''8''))] :: item list)
          = map Inr pre @ [Inr (Event End ''row'' (scenario_row ''1'' ''8''))]
        \<and> [scenario_row ''1'' ''10'', scenario_row ''1'' ''7'']
          = [scenario_row ''1'' ''10''] @ filter (accepts scenario_filter) (rows pre))
   \<and> \<not> isl (extract_from_file (StreamingPostExtractor_init 5 scenario_filter)
              (Some (Inr (Event Start ''posts'' [])
                 # map Inr [Event End ''row'' (scenario_row ''1'' ''10''),
                            Event End ''row'' (scenario_row ''2'' ''1'')])))
   \<and> [scenario_row ''1'' ''10'', scenario_row ''1'' ''7'']
       = take (nat (max 1 2))
           (filter (accepts scenario_filter)
              (rows [Event End ''row'' (scenario_row ''1'' ''10''),
                     Event End ''row'' (scenario_row ''2'' ''1''),
                     Event End ''row'' (scenario_row ''1'' ''-3''),
                     Event End ''row'' (scenario_row ''1'' ''7''),
                     Event End ''row'' (scenario_row ''1'' ''8'')]))
   \<and> [[(''CreationDate'', ''2016-03-01'')], [(''CreationDate'', ''2017-03-01'')]]
       = take (nat 5)
           (filter (in_years (Some 2015) None None)
              (rows [Event End ''row'' [(''CreationDate'', ''2016-03-01'')],
                     Event End ''row'' [(''CreationDate'', ''2010-03-01'')],
                     Event End ''row'' [(''CreationDate'', ''2017-03-01'')]]))"
proof -
  let ?s = "\<lparr> target_count = 2, post_filter = scenario_filter, extracted_count = 1,
              total_processed = 2, posts = [scenario_row ''1'' ''10''] \<rparr>"
  let ?items = "[Inr (Event End ''row'' (scenario_row ''1'' ''-3'')),
                 Inr (Event End ''row'' (scenario_row ''1'' ''7'')),
                 Inr (Event End ''row'' (scenario_row ''1'' ''8''))] :: item list"
  let ?s' = "\<lparr> target_count = 2, post_filter = scenario_filter, extracted_count = 2,
              total_processed = 4,
              posts = [scenario_row ''1'' ''10'', scenario_row ''1'' ''7''] \<rparr>"
  let ?evs = "[Event End ''row'' (scenario_row ''1'' ''10''),
               Event End ''row'' (scenario_row ''2'' ''1''),
               Event End ''row'' (scenario_row ''1'' ''-3''),
               Event End ''row'' (scenario_row ''1'' ''7''),
               Event End ''row'' (scenario_row ''1'' ''8'')]"
  let ?dated = "[Event End ''row'' [(''CreationDate'', ''2016-03-01'')],
                 Event End ''row'' [(''CreationDate'', ''2010-03-01'')],
                 Event End ''row'' [(''CreationDate'', ''2017-03-01'')]]"
  have run: "extract_loop ?s ?items = Inr (?s', [Inr (Event End ''row'' (scenario_row ''1'' ''8''))])"
    by code_simp
  have ok: "list_all (evaluates scenario_filter)
              (rows [Event End ''row'' (scenario_row ''1'' ''10''),
                     Event End ''row'' (scenario_row ''2'' ''1'')])"
    by code_simp
  have whole: "extract_from_file (StreamingPostExtractor_init 2 scenario_filter)
                 (Some (Inr (Event Start ''posts'' []) # map Inr ?evs))
               = Inr (?s', [Inr (Event End ''row'' (scenario_row ''1'' ''8''))])"
    by code_simp
  have dated: "extract_posts_streaming (Some (Inr (Event Start ''posts'' []) # map Inr ?dated))
                 5 (Some 2015) None None
               = Inr ([[(''CreationDate'', ''2016-03-01'')], [(''CreationDate'', ''2017-03-01'')]],
                      [])"
    by code_simp
  note inst = accepted_in_stream_order [where s = ?s and items = ?items and s' = ?s'
      and rest = "[Inr (Event End ''row'' (scenario_row ''1'' ''8''))]"
      and flt = scenario_filter and K = 5 and root = "Event Start ''posts'' []"
      and evs = "[Event End ''row'' (scenario_row ''1'' ''10''),
                  Event End ''row'' (scenario_row ''2'' ''1'')]"]
  note whole_inst = accepted_in_stream_order [where s' = ?s'
      and rest = "[Inr (Event End ''row'' (scenario_row ''1'' ''8''))]"
      and flt = scenario_filter and K = 2 and root = "Event Start ''posts'' []"
      and evs = ?evs]
  note dated_inst = accepted_in_stream_order [where K = 5 and root = "Event Start ''posts'' []"
      and evs = ?dated and mn = "Some 2015" and mx = None and sy = None and rest = "[]"
      and ps' = "[[(''CreationDate'', ''2016-03-01'')], [(''CreationDate'', ''2017-03-01'')]]"]
  have "\<exists>pre. ?items = map Inr pre @ [Inr (Event End ''row'' (scenario_row ''1'' ''8''))]
        \<and> posts ?s' = posts ?s @ filter (accepts (post_filter ?s)) (rows pre)"
    using inst [THEN conjunct1] run by (rule mp)
  then have f1: "\<exists>pre. ?items = map Inr pre @ [Inr (Event End ''row'' (scenario_row ''1'' ''8''))]
        \<and> [scenario_row ''1'' ''10'', scenario_row ''1'' ''7'']
          = [scenario_row ''1'' ''10''] @ filter (accepts scenario_filter) (rows pre)"
    by (simp only: StreamingPostExtractor.select_convs)
  have f2: "\<not> isl (extract_from_file (StreamingPostExtractor_init 5 scenario_filter)
              (Some (Inr (Event Start ''posts'' [])
                 # map Inr [Event End ''row'' (scenario_row ''1'' ''10''),
                            Event End ''row'' (scenario_row ''2'' ''1'')])))"
    using inst [THEN conjunct2, THEN conjunct2, THEN conjunct2, THEN conjunct2,
                 THEN conjunct1] ok by (rule mp)
  have "posts ?s' = take (nat (max 1 2)) (filter (accepts scenario_filter) (rows ?evs))"
    using whole_inst [THEN conjunct2, THEN conjunct2, THEN conjunct2, THEN conjunct2,
                 THEN conjunct2, THEN conjunct2, THEN conjunct2, THEN conjunct1] whole
    by (rule mp)
  then have f3: "[scenario_row ''1'' ''10'', scenario_row ''1'' ''7'']
      = take (nat (max 1 2)) (filter (accepts scenario_filter) (rows ?evs))"
    by (simp only: StreamingPostExtractor.select_convs)
  have f4: "[[(''CreationDate'', ''2016-03-01'')], [(''CreationDate'', ''2017-03-01'')]]
       = take (nat 5) (filter (in_years (Some 2015) None None) (rows ?dated))"
    using dated_inst [THEN conjunct2, THEN conjunct2, THEN conjunct2, THEN conjunct2,
                 THEN conjunct2, THEN conjunct2, THEN conjunct2, THEN conjunct2,
                 THEN conjunct2] dated
    by (rule mp)
  show ?thesis
    using f1 f2 f3 f4 by (intro conjI)
qed

section \<open>The topics file\<close>

lemma is_question_iff:
  "is_question p \<longleftrightarrow> map_of p ''PostTypeId'' = None \<or> map_of p ''PostTypeId'' = Some ''1''"
  by (auto simp: is_question_def attr_get_def split: option.splits)

lemma create_topic_element_counter:
  "fst (create_topic_element self post)
     = fst (create_topic_element \<lparr> topic_counter = topic_counter self \<rparr> post)"
  "topic_number (fst (create_topic_element self post)) = ''A.'' @ py_str (topic_counter self)"
  "snd (create_topic_element self post) = self\<lparr> topic_counter := topic_counter self + 1 \<rparr>"
  by (simp_all add: create_topic_element_def)

lemma create_topics_length: "length (fst (create_topics self qs)) = length qs"
proof (induction qs arbitrary: self)
  case Nil
  then show ?case by simp
next
  case (Cons q qs)
  obtain t self1 where el: "create_topic_element self q = (t, self1)"
    by (cases "create_topic_element self q")
  obtain ts self2 where tl: "create_topics self1 qs = (ts, self2)"
    by (cases "create_topics self1 qs")
  from Cons [of self1] tl el show ?case by simp
qed

lemma create_topics_nth:
  assumes "i < length qs"
  shows "fst (create_topics self qs) ! i
           = fst (create_topic_element \<lparr> topic_counter = topic_counter self + int i \<rparr> (qs ! i))"
  using assms
proof (induction qs arbitrary: self i)
  case Nil
  then show ?case by simp
next
  case (Cons q qs)
  obtain t self1 where el: "create_topic_element self q = (t, self1)"
    by (cases "create_topic_element self q")
  obtain ts self2 where tl: "create_topics self1 qs = (ts, self2)"
    by (cases "create_topics self1 qs")
  have c1: "topic_counter self1 = topic_counter self + 1"
    using create_topic_element_counter(3) [of self q] el by simp
  show ?case
  proof (cases i)
    case 0
    then show ?thesis
      using el tl create_topic_element_counter(1) [of self q] by simp
  next
    case (Suc j)
    with Cons.prems have "j < length qs" by simp
    from Cons.IH [OF this, of self1] tl
    have "ts ! j = fst (create_topic_element \<lparr> topic_counter = topic_counter self1 + int j \<rparr> (qs ! j))"
      by simp
    then show ?thesis
      using el tl Suc c1 by (simp add: add.assoc)
  qed
qed

text \<open>
  Claim C7. A fresh formatter turns the accepted list into one topic for each record
  whose \<^verbatim>\<open>PostTypeId\<close> is absent or \<^verbatim>\<open>1\<close>, drops every other record, and keeps the order:
  for \<open>n\<close> from 1, the \<open>n\<close>-th topic has the number \<^verbatim>\<open>A.n\<close> and is the topic element made
  from the \<open>n\<close>-th such record.
\<close>

theorem topics_are_numbered_questions:
  "\<exists>topics formatter.
     format_posts_to_topics_xml TopicsFormatter_init accepted True = Inr (topics, formatter)
     \<and> length topics
         = length (filter (\<lambda>p. map_of p ''PostTypeId'' = None
                                \<or> map_of p ''PostTypeId'' = Some ''1'') accepted)
     \<and> (\<forall>n. 1 \<le> n \<and> n \<le> length topics \<longrightarrow>
           topic_number (topics ! (n - 1)) = ''A.'' @ py_str (int n)
           \<and> topics ! (n - 1)
               = fst (create_topic_element \<lparr> topic_counter = int n \<rparr>
                        (filter (\<lambda>p. map_of p ''PostTypeId'' = None
                                       \<or> map_of p ''PostTypeId'' = Some ''1'') accepted
                           ! (n - 1))))"
proof -
  let ?qs = "filter (\<lambda>p. map_of p ''PostTypeId'' = None \<or> map_of p ''PostTypeId'' = Some ''1'')
               accepted"
  have qs: "filter is_question accepted = ?qs"
    by (rule filter_cong) (simp_all add: is_question_iff)
  obtain topics formatter where ct: "create_topics TopicsFormatter_init ?qs = (topics, formatter)"
    by (cases "create_topics TopicsFormatter_init ?qs")
  have run: "format_posts_to_topics_xml TopicsFormatter_init accepted True = Inr (topics, formatter)"
    by (simp add: format_posts_to_topics_xml_def qs ct)
  have len: "length topics = length ?qs"
    using create_topics_length [of TopicsFormatter_init ?qs] ct by simp
  have nth: "topics ! (n - 1) = fst (create_topic_element \<lparr> topic_counter = int n \<rparr> (?qs ! (n - 1)))"
    if "1 \<le> n \<and> n \<le> length topics" for n
  proof -
    from that len have "n - 1 < length ?qs" by arith
    from create_topics_nth [OF this, of TopicsFormatter_init] ct that
    show ?thesis by (simp add: TopicsFormatter_init_def)
  qed
  have "topic_number (topics ! (n - 1)) = ''A.'' @ py_str (int n)
        \<and> topics ! (n - 1) = fst (create_topic_element \<lparr> topic_counter = int n \<rparr> (?qs ! (n - 1)))"
    if "1 \<le> n \<and> n \<le> length topics" for n
    using nth [OF that] by (simp add: create_topic_element_counter(2))
  with run len show ?thesis by blast
qed

theorem topics_are_numbered_questions_witness:
  "\<exists>topics formatter.
     format_posts_to_topics_xml TopicsFormatter_init
       [[(''PostTypeId'', ''1''), (''Title'', ''First''), (''Tags'', ''<a><b>'')],
        [(''PostTypeId'', ''2''), (''Body'', ''an answer'')],
        [(''Title'', ''Second'')]] True = Inr (topics, formatter)
     \<and> length topics = 2
     \<and> topic_number (topics ! 0) = ''A.1''
     \<and> topic_number (topics ! 1) = ''A.2''
     \<and> topic_title (topics ! 1) = ''Second''"
proof -
  let ?posts = "[[(''PostTypeId'', ''1''), (''Title'', ''First''), (''Tags'', ''<a><b>'')],
        [(''PostTypeId'', ''2''), (''Body'', ''an answer'')],
        [(''Title'', ''Second'')]]"
  let ?qs = "filter (\<lambda>p. map_of p ''PostTypeId'' = None \<or> map_of p ''PostTypeId'' = Some ''1'')
               ?posts"
  have qs: "?qs = [[(''PostTypeId'', ''1''), (''Title'', ''First''), (''Tags'', ''<a><b>'')],
                   [(''Title'', ''Second'')]]"
    by simp
  obtain topics formatter where
    run: "format_posts_to_topics_xml TopicsFormatter_init ?posts True = Inr (topics, formatter)"
    and len: "length topics = length ?qs"
    and lab: "\<And>n. 1 \<le> n \<and> n \<le> length topics \<Longrightarrow>
           topic_number (topics ! (n - 1)) = ''A.'' @ py_str (int n)
           \<and> topics ! (n - 1) = fst (create_topic_element \<lparr> topic_counter = int n \<rparr> (?qs ! (n - 1)))"
    using topics_are_numbered_questions [of ?posts] by blast
  have two: "length topics = 2"
    using len unfolding qs by simp
  have s: "py_str 1 = ''1''" "py_str 2 = ''2''"
    by code_simp+
  have t: "topic_title (fst (create_topic_element \<lparr> topic_counter = 2 \<rparr> [(''Title'', ''Second'')]))
             = ''Second''"
    by code_simp
  have n1: "1 \<le> (1::nat) \<and> 1 \<le> length topics" and n2: "1 \<le> (2::nat) \<and> 2 \<le> length topics"
    using two by simp_all
  have l1: "topic_number (topics ! 0) = ''A.1''"
    using lab [OF n1, THEN conjunct1] by (simp add: s)
  have l2: "topic_number (topics ! 1) = ''A.2''"
    using lab [OF n2, THEN conjunct1] by (simp add: s)
  have "topics ! 1 = fst (create_topic_element \<lparr> topic_counter = 2 \<rparr> [(''Title'', ''Second'')])"
    using lab [OF n2, THEN conjunct2] unfolding qs by simp
  then have l3: "topic_title (topics ! 1) = ''Second''"
    by (simp only: t)
  show ?thesis
    using run two l1 l2 l3 by blast
qed

section \<open>Runs without a match\<close>

text \<open>
  Claim C9. In parser2.py and in parser.py alike: when the arguments are valid and the
  scan returns an empty list, the run ends with exit status 1 and has written no
  output file. And a run that wrote an output file has exit status 0, and its scan
  returned a list that is not empty, which is what the formatter was given.
\<close>

theorem no_matches_no_output:
  "(parser2_validate_arguments a w = Inr () \<and> create_post_filter a = Inr flt
      \<and> extract_from_file (StreamingPostExtractor_init (arg_num_posts a) flt)
            (files w (arg_input_file a)) = Inr (s, unread)
      \<and> posts s = [] \<longrightarrow>
    parser2_main a w = Run 1 None)
   \<and> (output_file (parser2_main a w) = Some topics \<longrightarrow>
        exit_status (parser2_main a w) = 0
        \<and> (\<exists>flt s unread formatter.
              create_post_filter a = Inr flt
              \<and> extract_from_file (StreamingPostExtractor_init (arg_num_posts a) flt)
                    (files w (arg_input_file a)) = Inr (s, unread)
              \<and> posts s \<noteq> []
              \<and> format_posts_to_topics_xml TopicsFormatter_init (posts s)
                    (writable w (arg_output a)) = Inr (topics, formatter)))
   \<and> (parser_validate_arguments b w = Inr () \<and> parser_specific_years b = Inr sy
      \<and> extract_posts_streaming (files w (arg_input_file b)) (arg_num_posts b)
            (arg_min_year b) (arg_max_year b) sy = Inr ([], unread') \<longrightarrow>
    parser_main b w = Run 1 None)
   \<and> (output_file (parser_main b w) = Some rows_written \<longrightarrow>
        exit_status (parser_main b w) = 0 \<and> rows_written \<noteq> []
        \<and> (\<exists>sy unread.
              parser_specific_years b = Inr sy
              \<and> extract_posts_streaming (files w (arg_input_file b)) (arg_num_posts b)
                    (arg_min_year b) (arg_max_year b) sy = Inr (rows_written, unread)))"
proof (intro conjI impI)
  assume "parser2_validate_arguments a w = Inr () \<and> create_post_filter a = Inr flt
      \<and> extract_from_file (StreamingPostExtractor_init (arg_num_posts a) flt)
            (files w (arg_input_file a)) = Inr (s, unread)
      \<and> posts s = []"
  then show "parser2_main a w = Run 1 None"
    by (simp add: parser2_main_def parser2_main_try_def run_of_def)
next
  assume h: "output_file (parser2_main a w) = Some topics"
  then obtain written where t: "parser2_main_try a w = Inr written"
    by (cases "parser2_main_try a w") (auto simp: parser2_main_def run_of_def split: pyerr.splits)
  with h have written: "written = topics"
    by (simp add: parser2_main_def run_of_def)
  from t show "exit_status (parser2_main a w) = 0"
    by (simp add: parser2_main_def run_of_def)
  from t written show "\<exists>flt s unread formatter.
              create_post_filter a = Inr flt
              \<and> extract_from_file (StreamingPostExtractor_init (arg_num_posts a) flt)
                    (files w (arg_input_file a)) = Inr (s, unread)
              \<and> posts s \<noteq> []
              \<and> format_posts_to_topics_xml TopicsFormatter_init (posts s)
                    (writable w (arg_output a)) = Inr (topics, formatter)"
    by (auto simp: parser2_main_try_def split: sum.splits prod.splits if_splits)
next
  assume "parser_validate_arguments b w = Inr () \<and> parser_specific_years b = Inr sy
      \<and> extract_posts_streaming (files w (arg_input_file b)) (arg_num_posts b)
            (arg_min_year b) (arg_max_year b) sy = Inr ([], unread')"
  then show "parser_main b w = Run 1 None"
    by (simp add: parser_main_def parser_main_body_def run_of_def)
next
  assume h: "output_file (parser_main b w) = Some rows_written"
  then obtain written where t: "parser_main_body b w = Inr written"
    by (cases "parser_main_body b w") (auto simp: parser_main_def run_of_def split: pyerr.splits)
  with h have written: "written = rows_written"
    by (simp add: parser_main_def run_of_def)
  from t show "exit_status (parser_main b w) = 0"
    by (simp add: parser_main_def run_of_def)
  from t written show "rows_written \<noteq> []"
    by (auto simp: parser_main_body_def create_output_xml_def
             split: sum.splits prod.splits if_splits)
  from t written show "\<exists>sy unread.
              parser_specific_years b = Inr sy
              \<and> extract_posts_streaming (files w (arg_input_file b)) (arg_num_posts b)
                    (arg_min_year b) (arg_max_year b) sy = Inr (rows_written, unread)"
    by (auto simp: parser_main_body_def create_output_xml_def
             split: sum.splits prod.splits if_splits)
qed

theorem no_matches_no_output_witness:
  "parser2_main questions_only_args (one_file [scenario_row ''2'' ''1'', scenario_row ''2'' ''2''])
     = Run 1 None
   \<and> parser_main from_2015_args
       (one_file [[(''CreationDate'', ''2010-03-01T00:00:00.000'')]]) = Run 1 None"
proof -
  let ?w = "one_file [scenario_row ''2'' ''1'', scenario_row ''2'' ''2'']"
  let ?flt = "PostFilter_init None None (Some [''1'']) None None None None None None None None"
  let ?s = "\<lparr> target_count = 5, post_filter = ?flt, extracted_count = 0, total_processed = 2,
              posts = [] \<rparr>"
  let ?w' = "one_file [[(''CreationDate'', ''2010-03-01T00:00:00.000'')]]"
  have h: "parser2_validate_arguments questions_only_args ?w = Inr ()
      \<and> create_post_filter questions_only_args = Inr ?flt
      \<and> extract_from_file (StreamingPostExtractor_init (arg_num_posts questions_only_args) ?flt)
            (files ?w (arg_input_file questions_only_args)) = Inr (?s, [])
      \<and> posts ?s = []"
    by code_simp
  have h': "parser_validate_arguments from_2015_args ?w' = Inr ()
      \<and> parser_specific_years from_2015_args = Inr None
      \<and> extract_posts_streaming (files ?w' (arg_input_file from_2015_args))
            (arg_num_posts from_2015_args) (arg_min_year from_2015_args)
            (arg_max_year from_2015_args) None = Inr ([], [])"
    by code_simp
  note inst = no_matches_no_output [where a = questions_only_args and w = ?w and flt = ?flt
      and s = ?s and unread = "[]"]
  note inst' = no_matches_no_output [where b = from_2015_args and w = ?w' and sy = None
      and unread' = "[]"]
  have "parser2_main questions_only_args ?w = Run 1 None"
    using inst [THEN conjunct1] h by (rule mp)
  moreover have "parser_main from_2015_args ?w' = Run 1 None"
    using inst' [THEN conjunct2, THEN conjunct2, THEN conjunct1] h' by (rule mp)
  ultimately show ?thesis by simp
qed

end
